theory Spec2Isabelle
  imports Main
begin

section \<open>Strings of the configuration\<close>

text \<open>
  A JavaScript string is taken as a list of code units in the range U+0000 to U+00FF
  (one \<^typ>\<open>char\<close> each); \<open>length\<close> is then the \<open>.length\<close> of the source.
  \<open>trim\<close> removes the ECMAScript white space and line terminators of that range
  (TAB, LF, VT, FF, CR, SP, NBSP) at both ends, \<open>toLowerCase\<close> maps A-Z and the
  Latin-1 capitals U+00C0..U+00DE (without U+00D7) to their lower-case letters.
\<close>

definition codeUnit :: "char \<Rightarrow> nat" where
  "codeUnit c = of_char c"

definition isWhiteSpace :: "char \<Rightarrow> bool" where
  "isWhiteSpace c = (codeUnit c \<in> {9, 10, 11, 12, 13, 32, 160})"

definition toLowerCaseChar :: "char \<Rightarrow> char" where
  "toLowerCaseChar c =
     (let u = codeUnit c in
      if (65 \<le> u \<and> u \<le> 90) \<or> (192 \<le> u \<and> u \<le> 222 \<and> u \<noteq> 215)
      then char_of (u + 32) else c)"

definition toLowerCase :: "string \<Rightarrow> string" where
  "toLowerCase s = map toLowerCaseChar s"

definition trim :: "string \<Rightarrow> string" where
  "trim s = rev (dropWhile isWhiteSpace (rev (dropWhile isWhiteSpace s)))"

text \<open>\<open>s.split(sep)\<close> for a one-character separator: the empty string gives one empty piece.\<close>

fun split_on :: "char \<Rightarrow> string \<Rightarrow> string list" where
  "split_on sep [] = [[]]"
| "split_on sep (c # cs) =
     (if c = sep then [] # split_on sep cs
      else (case split_on sep cs of
              p # ps \<Rightarrow> (c # p) # ps
            | [] \<Rightarrow> [[c]]))"

definition startsWith :: "string \<Rightarrow> string \<Rightarrow> bool" where
  "startsWith s p = (take (length p) s = p)"

text \<open>\<open>s.includes(sub)\<close>: \<open>sub\<close> occurs in \<open>s\<close> at some position.\<close>

fun includes_str :: "string \<Rightarrow> string \<Rightarrow> bool" where
  "includes_str [] sub = (sub = [])"
| "includes_str (c # cs) sub = (take (length sub) (c # cs) = sub \<or> includes_str cs sub)"

text \<open>A number in decimal digits, as string interpolation prints it.\<close>

fun decimal :: "nat \<Rightarrow> string" where
  "decimal n =
     (if n < 10 then [''0123456789'' ! n]
      else decimal (n div 10) @ [''0123456789'' ! (n mod 10)])"

declare decimal.simps [simp del]

text \<open>\<open>process.env.CUSTOM_TOKENS || ""\<close>: an unset variable reads as the empty string.\<close>

definition customTokensEnv :: "string option \<Rightarrow> string" where
  "customTokensEnv v = (case v of None \<Rightarrow> [] | Some s \<Rightarrow> s)"

text \<open>Lines 34-37: split at commas, trim and lower-case each piece, keep by length and prefix.\<close>

definition customTokenAddresses :: "string option \<Rightarrow> string list" where
  "customTokenAddresses v =
     filter (\<lambda>addr. length addr = 42 \<and> startsWith addr ''0x'')
       (map (\<lambda>addr. toLowerCase (trim addr)) (split_on CHR '','' (customTokensEnv v)))"

text \<open>
  The specification's notion of a well-formed address, after normalisation to lower
  case: 42 characters, the prefix \<open>0x\<close>, then 40 hexadecimal digits.
\<close>

definition isHexDigit :: "char \<Rightarrow> bool" where
  "isHexDigit c = (c \<in> set ''0123456789abcdef'')"

definition isHexAddress :: "string \<Rightarrow> bool" where
  "isHexAddress a = (length a = 42 \<and> take 2 a = ''0x'' \<and> list_all isHexDigit (drop 2 a))"

section \<open>Errors, promises and effects\<close>

text \<open>
  A thrown value or the reason of a rejected promise: the \<open>code\<close> property (absent on
  a plain \<open>Error\<close>) and the \<open>message\<close>.
\<close>

datatype error = Error (code: "string option") (message: string)

type_synonym 'a result = "error + 'a"

text \<open>What a call leaves outside the monitor: requests to the chain and console lines.\<close>

datatype effect =
    Call_balanceOf string string
  | Call_transfer string string nat
  | Call_wait string
  | Log_transferring string string string
  | Log_transferred string string
  | Log_txHash string
  | Log_transferFailed string string

text \<open>
  An asynchronous computation run to its end: the effects it issued, in order, and how
  it settled (\<open>Inl\<close> rejected, \<open>Inr\<close> fulfilled).
\<close>

type_synonym 'a io = "effect list \<times> 'a result"

definition ret :: "'a \<Rightarrow> 'a io" where
  "ret v = ([], Inr v)"

definition emit :: "effect \<Rightarrow> unit io" where
  "emit e = ([e], Inr ())"

definition await :: "'a result \<Rightarrow> 'a io" where
  "await r = ([], r)"

definition andThen :: "'a io \<Rightarrow> ('a \<Rightarrow> 'b io) \<Rightarrow> 'b io" where
  "andThen m f =
     (case snd m of
        Inl e \<Rightarrow> (fst m, Inl e)
      | Inr v \<Rightarrow> (fst m @ fst (f v), snd (f v)))"

definition tryCatch :: "'a io \<Rightarrow> (error \<Rightarrow> 'a io) \<Rightarrow> 'a io" where
  "tryCatch m h =
     (case snd m of
        Inl e \<Rightarrow> (fst m @ fst (h e), snd (h e))
      | Inr v \<Rightarrow> m)"

text \<open>\<open>promise.catch(() => d)\<close> on a call that has no effect of its own.\<close>

definition orDefault :: "'a result \<Rightarrow> 'a \<Rightarrow> 'a result" where
  "orDefault r d = (case r of Inl e \<Rightarrow> Inr d | Inr v \<Rightarrow> Inr v)"

section \<open>The chain as the monitor sees it\<close>

text \<open>
  \<open>tx.wait()\<close> settles once the transaction is confirmed, and rejects when it reverted.
\<close>

record tx_response =
  tx_hash :: string
  tx_wait :: "unit result"

text \<open>
  A \<open>Contract\<close> object over \<open>ERC20_ABI\<close>: how each of its calls settles. \<open>c_name\<close>
  is \<open>None\<close> when the object has no \<open>name\<close> member (the test of line 58); with the
  ABI of the source the member exists.
\<close>

record contract =
  c_symbol :: "string result"
  c_decimals :: "nat result"
  c_name :: "string result option"
  c_balanceOf :: "string \<Rightarrow> nat result"
  c_transfer :: "string \<Rightarrow> nat \<Rightarrow> tx_response result"

text \<open>
  The library and the endpoint during one call: \<open>new Contract(address, ERC20_ABI, runner)\<close>
  and \<open>formatUnits(amount, decimals)\<close>, either of which may throw.
\<close>

record chain =
  Contract :: "string \<Rightarrow> contract result"
  formatUnits :: "nat \<Rightarrow> nat \<Rightarrow> string result"

record token_details =
  symbol :: string
  decimals :: nat
  name :: string

text \<open>
  The variables of one \<open>monitorAndTransfer\<close> invocation that are set once and read by
  its inner functions: \<open>name\<close> of the network, \<open>senderAddress\<close>, \<open>recipient\<close>.
\<close>

record monitor_env =
  netName :: string
  senderAddress :: string
  recipient :: string

section \<open>getTokenDetails and transferToken\<close>

text \<open>
  Lines 52-66. Each lookup has its own \<open>.catch\<close>; \<open>Promise.all\<close> rejects when one of
  the three still rejects; the outer \<open>catch\<close> returns the three defaults.
\<close>

definition getTokenDetails :: "chain \<Rightarrow> string \<Rightarrow> token_details result" where
  "getTokenDetails ch tokenAddress =
     (case
        (case Contract ch tokenAddress of
           Inl e \<Rightarrow> Inl e
         | Inr tokenContract \<Rightarrow>
             (case orDefault (c_symbol tokenContract) ''UNKNOWN'' of
                Inl e \<Rightarrow> Inl e
              | Inr s \<Rightarrow>
                  (case orDefault (c_decimals tokenContract) 18 of
                     Inl e \<Rightarrow> Inl e
                   | Inr d \<Rightarrow>
                       (case (case c_name tokenContract of
                                Some call \<Rightarrow> orDefault call ''Unknown Token''
                              | None \<Rightarrow> Inr ''Unknown Token'') of
                          Inl e \<Rightarrow> Inl e
                        | Inr n \<Rightarrow> Inr \<lparr>symbol = s, decimals = d, name = n\<rparr>))))
      of
        Inl e \<Rightarrow> Inr \<lparr>symbol = ''UNKNOWN'', decimals = 18, name = ''Unknown Token''\<rparr>
      | Inr details \<Rightarrow> Inr details)"

text \<open>
  Lines 68-105. The balance is a \<open>uint256\<close>, so \<open>balance === 0n\<close> and
  \<open>balance.toString() === "0"\<close> both say that it is zero.
\<close>

definition transferToken :: "chain \<Rightarrow> monitor_env \<Rightarrow> string \<Rightarrow> token_details \<Rightarrow> bool io" where
  "transferToken ch env tokenAddress tokenDetails =
     tryCatch
       (andThen (await (Contract ch tokenAddress)) (\<lambda>tokenContract.
        andThen (emit (Call_balanceOf tokenAddress (senderAddress env))) (\<lambda>_.
        andThen (await (c_balanceOf tokenContract (senderAddress env))) (\<lambda>balance.
          if balance = 0 then ret False
          else
            andThen (await (formatUnits ch balance (decimals tokenDetails))) (\<lambda>formattedBalance.
            andThen (emit (Log_transferring formattedBalance (symbol tokenDetails)
                             (name tokenDetails))) (\<lambda>_.
            andThen (emit (Call_transfer tokenAddress (recipient env) balance)) (\<lambda>_.
            andThen (await (c_transfer tokenContract (recipient env) balance)) (\<lambda>tx.
            andThen (emit (Call_wait (tx_hash tx))) (\<lambda>_.
            andThen (await (tx_wait tx)) (\<lambda>_.
            andThen (emit (Log_transferred formattedBalance (symbol tokenDetails))) (\<lambda>_.
            andThen (emit (Log_txHash (tx_hash tx))) (\<lambda>_.
              ret True))))))))))))
       (\<lambda>error.
          andThen (emit (Log_transferFailed (symbol tokenDetails) (message error))) (\<lambda>_.
            ret False))"

section \<open>One monitor as an event-driven machine\<close>

text \<open>
  JavaScript runs one piece of code at a time: a function runs from one \<open>await\<close> to
  the next without interruption, and between two such pieces any other suspended
  invocation may run. The monitor is therefore a machine whose steps are the pieces:
  each suspended invocation is recorded by the \<open>await\<close> it stands at, and an event is a
  timer firing or a pending call settling, stamped with the time in milliseconds.
  \<open>getTokenDetails\<close> and \<open>transferToken\<close> read and write none of the monitor's variables,
  so an \<open>await\<close> on one of them is a single event carrying the chain that answered it.
\<close>

record log_entry =
  transactionHash :: string
  address :: string
  blockNumber :: nat

text \<open>Where an invocation of \<open>handleIncomingTransfer\<close> (lines 109-129) stands.\<close>

datatype handler_pc =
    AwaitDetails string
  | AwaitTimeout string token_details nat
  | AwaitTransfer string token_details
  | Returned

text \<open>
  Where an invocation of the interval callback (lines 138-160) stands. \<open>AwaitHandler\<close>
  holds the callback's \<open>currentBlock\<close>, the log in hand, its handler, and the logs the
  loop has still to visit.
\<close>

datatype tick_pc =
    AwaitBlockNumber
  | AwaitLogs nat
  | AwaitHandler nat log_entry handler_pc "log_entry list"
  | Settled

text \<open>
  Where the custom-token loop of lines 162-173 stands. \<open>PassThrew\<close> is an exception on
  its way to the \<open>catch\<close> of line 174; neither function of the loop throws, so no run
  gets there.
\<close>

datatype pass_pc =
    PassDetails string "string list"
  | PassTransfer string token_details "string list"
  | PassDone
  | PassThrew error

text \<open>What the monitor did, for the journal (most recent first).\<close>

datatype entry =
    Queried nat nat nat
  | Batch nat "log_entry list"
  | Skipped nat log_entry
  | Marked nat log_entry
  | Announced nat log_entry token_details
  | SweepStarted nat log_entry token_details
  | SweepEnded nat log_entry bool "effect list"
  | Advanced nat nat
  | PassResolving string
  | PassSweepStarted string token_details
  | PassSweepEnded string bool "effect list"

text \<open>
  The events. \<open>Interval\<close> is the timer of line 160 firing: it starts a new invocation of
  the callback, and is due 15000 ms after the timer was set or last fired. The events
  with a number belong to the invocation of that number: its \<open>getBlockNumber\<close> or
  \<open>getLogs\<close> settles with the given result, the \<open>getTokenDetails\<close> or \<open>transferToken\<close>
  of its handler returns from the given chain, the timer of line 127 fires (due 60000
  ms after it was set), or the loop goes on after a handler that had returned at line
  112 or after its sweep. The last two belong to the custom-token loop.
\<close>

datatype event =
    Interval
  | BlockNumber nat "nat result"
  | GetLogs nat "log_entry list result"
  | TokenDetails nat chain
  | Timeout nat
  | Transfer nat chain
  | Resume nat
  | PassTokenDetails chain
  | PassTransferred chain

text \<open>
  \<open>lastCheckedBlock\<close> (line 131) and \<open>processedTxs\<close> (line 107) are the two variables
  the invocations share. \<open>ticks\<close> lists the invocations of the interval callback in the
  order the timer started them.
\<close>

record monitor =
  lastCheckedBlock :: nat
  processedTxs :: "string set"
  ticks :: "tick_pc list"
  pass :: pass_pc
  clock :: nat
  nextInterval :: nat
  journal :: "entry list"

definition jot :: "entry \<Rightarrow> monitor \<Rightarrow> monitor" where
  "jot n m = m\<lparr>journal := n # journal m\<rparr>"

definition setTick :: "nat \<Rightarrow> tick_pc \<Rightarrow> monitor \<Rightarrow> monitor" where
  "setTick i pc m = m\<lparr>ticks := (ticks m)[i := pc]\<rparr>"

definition tickAt :: "monitor \<Rightarrow> nat \<Rightarrow> tick_pc option" where
  "tickAt m i = (if i < length (ticks m) then Some (ticks m ! i) else None)"

text \<open>
  Lines 109-116, called by invocation \<open>i\<close> of the callback: from the call to the return
  of line 112 or to the \<open>await\<close> of line 116.
\<close>

definition handleIncomingTransfer :: "nat \<Rightarrow> log_entry \<Rightarrow> monitor \<Rightarrow> handler_pc \<times> monitor" where
  "handleIncomingTransfer i log m =
     (let txHash = transactionHash log in
      if txHash \<in> processedTxs m then (Returned, jot (Skipped i log) m)
      else (AwaitDetails (toLowerCase (address log)),
            jot (Marked i log) (m\<lparr>processedTxs := insert txHash (processedTxs m)\<rparr>)))"

text \<open>
  Lines 152-155, from the top of the \<open>for\<close> loop to its next \<open>await\<close>, or past its end
  to the assignment of line 155.
\<close>

fun forLoop :: "nat \<Rightarrow> nat \<Rightarrow> log_entry list \<Rightarrow> monitor \<Rightarrow> monitor" where
  "forLoop i currentBlock [] m =
     jot (Advanced i currentBlock) (setTick i Settled (m\<lparr>lastCheckedBlock := currentBlock\<rparr>))"
| "forLoop i currentBlock (log # logs) m =
     (case handleIncomingTransfer i log m of
        (pc, m') \<Rightarrow> setTick i (AwaitHandler currentBlock log pc logs) m')"

text \<open>Lines 169-172, from the top of the custom-token loop to its next \<open>await\<close>.\<close>

fun passLoop :: "string list \<Rightarrow> monitor \<Rightarrow> monitor" where
  "passLoop [] m = m\<lparr>pass := PassDone\<rparr>"
| "passLoop (tokenAddress # rest) m =
     jot (PassResolving tokenAddress) (m\<lparr>pass := PassDetails tokenAddress rest\<rparr>)"

text \<open>
  The piece of code that event \<open>ev\<close> starts at time \<open>t\<close>; \<open>None\<close> when nothing waits for
  the event, or when a timer is not yet due. An exception inside the callback ends it
  at the \<open>catch\<close> of line 157, which does nothing.
\<close>

fun fire :: "monitor_env \<Rightarrow> nat \<Rightarrow> event \<Rightarrow> monitor \<Rightarrow> monitor option" where
  "fire env t Interval m =
     (if t < nextInterval m then None
      else Some (m\<lparr>ticks := ticks m @ [AwaitBlockNumber], nextInterval := t + 15000\<rparr>))"
| "fire env t (BlockNumber i r) m =
     (case tickAt m i of
        Some AwaitBlockNumber \<Rightarrow>
          (case r of
             Inl e \<Rightarrow> Some (setTick i Settled m)
           | Inr currentBlock \<Rightarrow>
               if currentBlock > lastCheckedBlock m
               then Some (jot (Queried i (lastCheckedBlock m + 1) currentBlock)
                            (setTick i (AwaitLogs currentBlock) m))
               else Some (setTick i Settled m))
      | _ \<Rightarrow> None)"
| "fire env t (GetLogs i r) m =
     (case tickAt m i of
        Some (AwaitLogs currentBlock) \<Rightarrow>
          (case r of
             Inl e \<Rightarrow> Some (setTick i Settled m)
           | Inr logs \<Rightarrow> Some (forLoop i currentBlock logs (jot (Batch i logs) m)))
      | _ \<Rightarrow> None)"
| "fire env t (TokenDetails i ch) m =
     (case tickAt m i of
        Some (AwaitHandler currentBlock log (AwaitDetails tokenAddress) logs) \<Rightarrow>
          (case getTokenDetails ch tokenAddress of
             Inl e \<Rightarrow> Some (setTick i Settled m)
           | Inr tokenDetails \<Rightarrow>
               Some (jot (Announced i log tokenDetails)
                       (setTick i (AwaitHandler currentBlock log
                          (AwaitTimeout tokenAddress tokenDetails (t + 60000)) logs) m)))
      | _ \<Rightarrow> None)"
| "fire env t (Timeout i) m =
     (case tickAt m i of
        Some (AwaitHandler currentBlock log (AwaitTimeout tokenAddress tokenDetails due) logs) \<Rightarrow>
          if t < due then None
          else Some (jot (SweepStarted i log tokenDetails)
                       (setTick i (AwaitHandler currentBlock log
                          (AwaitTransfer tokenAddress tokenDetails) logs) m))
      | _ \<Rightarrow> None)"
| "fire env t (Transfer i ch) m =
     (case tickAt m i of
        Some (AwaitHandler currentBlock log (AwaitTransfer tokenAddress tokenDetails) logs) \<Rightarrow>
          (case transferToken ch env tokenAddress tokenDetails of
             (effects, Inl e) \<Rightarrow> Some (setTick i Settled m)
           | (effects, Inr ok) \<Rightarrow>
               Some (jot (SweepEnded i log ok effects)
                       (setTick i (AwaitHandler currentBlock log Returned logs) m)))
      | _ \<Rightarrow> None)"
| "fire env t (Resume i) m =
     (case tickAt m i of
        Some (AwaitHandler currentBlock log Returned logs) \<Rightarrow> Some (forLoop i currentBlock logs m)
      | _ \<Rightarrow> None)"
| "fire env t (PassTokenDetails ch) m =
     (case pass m of
        PassDetails tokenAddress rest \<Rightarrow>
          (case getTokenDetails ch tokenAddress of
             Inl e \<Rightarrow> Some (m\<lparr>pass := PassThrew e\<rparr>)
           | Inr tokenDetails \<Rightarrow>
               Some (jot (PassSweepStarted tokenAddress tokenDetails)
                       (m\<lparr>pass := PassTransfer tokenAddress tokenDetails rest\<rparr>)))
      | _ \<Rightarrow> None)"
| "fire env t (PassTransferred ch) m =
     (case pass m of
        PassTransfer tokenAddress tokenDetails rest \<Rightarrow>
          (case transferToken ch env tokenAddress tokenDetails of
             (effects, Inl e) \<Rightarrow> Some (m\<lparr>pass := PassThrew e\<rparr>)
           | (effects, Inr ok) \<Rightarrow>
               Some (passLoop rest (jot (PassSweepEnded tokenAddress ok effects) m)))
      | _ \<Rightarrow> None)"

text \<open>Time does not run backwards.\<close>

definition step :: "monitor_env \<Rightarrow> nat \<times> event \<Rightarrow> monitor \<Rightarrow> monitor option" where
  "step env te m =
     (if fst te < clock m then None else fire env (fst te) (snd te) (m\<lparr>clock := fst te\<rparr>))"

fun exec :: "monitor_env \<Rightarrow> (nat \<times> event) list \<Rightarrow> monitor \<Rightarrow> monitor option" where
  "exec env [] m = Some m"
| "exec env (te # rest) m =
     (case step env te m of
        None \<Rightarrow> None
      | Some m' \<Rightarrow> exec env rest m')"

text \<open>
  Lines 107 and 131-173 at time \<open>t\<close>, once \<open>getBlockNumber\<close> has returned \<open>height\<close>:
  the empty set, the checkpoint, the interval timer, and the custom-token loop up to
  its first \<open>await\<close>.
\<close>

definition startMonitoring :: "nat \<Rightarrow> nat \<Rightarrow> string list \<Rightarrow> monitor" where
  "startMonitoring t height tokens =
     (if length tokens > 0
      then passLoop tokens
             \<lparr>lastCheckedBlock = height, processedTxs = {}, ticks = [], pass = PassDone,
              clock = t, nextInterval = t + 15000, journal = []\<rparr>
      else \<lparr>lastCheckedBlock = height, processedTxs = {}, ticks = [], pass = PassDone,
            clock = t, nextInterval = t + 15000, journal = []\<rparr>)"

section \<open>Starting and restarting a monitor\<close>

record network_config =
  net_name :: string
  rpcUrl :: string

text \<open>
  The environment variables \<open>monitorAndTransfer\<close> reads. \<open>main\<close> (lines 197-204) ends the
  process when \<open>PRIVATE_KEY\<close> or \<open>RECIPIENT_ADDRESS\<close> is missing, so both are strings here.
\<close>

record process_env =
  PRIVATE_KEY :: string
  RECIPIENT_ADDRESS :: string
  CUSTOM_TOKENS :: "string option"

text \<open>
  What the library and the endpoint answer during one start: \<open>new JsonRpcProvider(rpcUrl)\<close>,
  \<open>new Wallet(privateKey, provider)\<close> with the address of the wallet it builds, the first
  \<open>getBlockNumber()\<close>, and the time in milliseconds until the last of them has settled.
\<close>

record world =
  new_JsonRpcProvider :: "string \<Rightarrow> unit result"
  new_Wallet :: "string \<Rightarrow> string result"
  getBlockNumber :: "nat result"
  latency :: nat

datatype report =
    Say_invalid_private_key string
  | Say_ensure_private_key string
  | Say_fatal_error string error
  | Say_restarting string

text \<open>
  How an invocation of \<open>monitorAndTransfer\<close> leaves its start: with the interval timer
  set, with nothing scheduled, or with a timer that calls \<open>monitorAndTransfer\<close> again on
  the given configuration at the given time.
\<close>

datatype outcome =
    Monitoring monitor_env monitor
  | Stopped "report list"
  | Restarting "report list" nat network_config

text \<open>
  Lines 39-173 of the \<open>try\<close> block up to the first \<open>await\<close> after \<open>setInterval\<close>, called at
  time \<open>t\<close>. \<open>"-".repeat(45 - name.length)\<close> in the banner throws a \<open>RangeError\<close> for a
  name of more than 45 characters, whose message gives the negative count.
\<close>

definition startUp :: "world \<Rightarrow> process_env \<Rightarrow> network_config \<Rightarrow> nat \<Rightarrow> (monitor_env \<times> monitor) result" where
  "startUp w penv networkConfig t =
     (case new_JsonRpcProvider w (rpcUrl networkConfig) of
        Inl e \<Rightarrow> Inl e
      | Inr provider \<Rightarrow>
          (case new_Wallet w (PRIVATE_KEY penv) of
             Inl e \<Rightarrow> Inl e
           | Inr walletAddress \<Rightarrow>
               if 45 < length (net_name networkConfig)
               then Inl (Error None
                      (''Invalid count value: -'' @
                         decimal (length (net_name networkConfig) - 45)))
               else
                 (case getBlockNumber w of
                    Inl e \<Rightarrow> Inl e
                  | Inr height \<Rightarrow>
                      Inr (\<lparr>netName = net_name networkConfig,
                            senderAddress = toLowerCase walletAddress,
                            recipient = RECIPIENT_ADDRESS penv\<rparr>,
                           startMonitoring (t + latency w) height
                             (customTokenAddresses (CUSTOM_TOKENS penv))))))"

text \<open>The test of lines 175-178.\<close>

definition isInvalidPrivateKey :: "error \<Rightarrow> bool" where
  "isInvalidPrivateKey err =
     (code err = Some ''INVALID_ARGUMENT'' \<and>
      includes_str (message err) ''invalid BytesLike value'')"

text \<open>Lines 174-190, run at time \<open>t\<close>.\<close>

definition catchBlock :: "network_config \<Rightarrow> nat \<Rightarrow> error \<Rightarrow> outcome" where
  "catchBlock networkConfig t err =
     (if isInvalidPrivateKey err
      then Stopped [Say_invalid_private_key (net_name networkConfig),
                    Say_ensure_private_key (net_name networkConfig)]
      else Restarting [Say_fatal_error (net_name networkConfig) err,
                       Say_restarting (net_name networkConfig)]
             (t + 30000) networkConfig)"

definition monitorAndTransfer :: "world \<Rightarrow> process_env \<Rightarrow> network_config \<Rightarrow> nat \<Rightarrow> outcome" where
  "monitorAndTransfer w penv networkConfig t =
     (case startUp w penv networkConfig t of
        Inl err \<Rightarrow> catchBlock networkConfig (t + latency w) err
      | Inr (env, m) \<Rightarrow> Monitoring env m)"

text \<open>
  The timer of line 188 firing: a monitor that is \<open>Restarting\<close> calls
  \<open>monitorAndTransfer\<close> again when its timer is due, in the world of that moment.
\<close>

fun restart :: "world \<Rightarrow> process_env \<Rightarrow> outcome \<Rightarrow> outcome" where
  "restart w penv (Restarting reports due networkConfig) =
     monitorAndTransfer w penv networkConfig due"
| "restart w penv out = out"

section \<open>Reading the journal\<close>

text \<open>The logs that passed the test of line 112, and the logs a handler swept, newest first.\<close>

fun markedLogs :: "entry list \<Rightarrow> log_entry list" where
  "markedLogs [] = []"
| "markedLogs (Marked i l # es) = l # markedLogs es"
| "markedLogs (e # es) = markedLogs es"

fun sweptLogs :: "entry list \<Rightarrow> log_entry list" where
  "sweptLogs [] = []"
| "sweptLogs (SweepStarted i l d # es) = l # sweptLogs es"
| "sweptLogs (e # es) = sweptLogs es"

text \<open>The log of a handler that has marked it and has not yet called \<open>transferToken\<close>.\<close>

fun pendingLog :: "tick_pc \<Rightarrow> log_entry option" where
  "pendingLog (AwaitHandler cur l (AwaitDetails a) ls) = Some l"
| "pendingLog (AwaitHandler cur l (AwaitTimeout a d due) ls) = Some l"
| "pendingLog pc = None"

definition pendingAt :: "monitor \<Rightarrow> nat \<Rightarrow> log_entry option" where
  "pendingAt m i = (case tickAt m i of Some pc \<Rightarrow> pendingLog pc | None \<Rightarrow> None)"

text \<open>
  What the set \<open>processedTxs\<close> guarantees at every moment: a marked hash is in the set,
  no hash is marked twice, a swept log was marked and no hash is swept twice, and the
  logs still waiting for their sweep are marked, not yet swept, and wait in one handler
  only.
\<close>

definition ledger_inv :: "monitor \<Rightarrow> bool" where
  "ledger_inv m =
     (transactionHash ` set (markedLogs (journal m)) \<subseteq> processedTxs m \<and>
      distinct (map transactionHash (markedLogs (journal m))) \<and>
      set (sweptLogs (journal m)) \<subseteq> set (markedLogs (journal m)) \<and>
      distinct (map transactionHash (sweptLogs (journal m))) \<and>
      (\<forall>i l. pendingAt m i = Some l \<longrightarrow>
         l \<in> set (markedLogs (journal m)) \<and>
         transactionHash l \<notin> transactionHash ` set (sweptLogs (journal m))) \<and>
      (\<forall>i j l l'. pendingAt m i = Some l \<and> pendingAt m j = Some l' \<and>
         transactionHash l = transactionHash l' \<longrightarrow> i = j))"

text \<open>The queries and the checkpoint assignments of the journal.\<close>

fun isPolling :: "entry \<Rightarrow> bool" where
  "isPolling (Queried i fromBlock toBlock) = True"
| "isPolling (Advanced i cur) = True"
| "isPolling e = False"








text \<open>The \<open>currentBlock\<close> an invocation of the callback holds, once it has read it.\<close>

fun currentBlockOf :: "tick_pc \<Rightarrow> nat option" where
  "currentBlockOf (AwaitLogs cur) = Some cur"
| "currentBlockOf (AwaitHandler cur l pc ls) = Some cur"
| "currentBlockOf pc = None"

text \<open>
  At most one invocation of the callback is in flight, and the block it has read lies
  above the checkpoint.
\<close>

definition serial_inv :: "monitor \<Rightarrow> bool" where
  "serial_inv m =
     ((\<forall>i j pc pc'. tickAt m i = Some pc \<and> tickAt m j = Some pc' \<and>
         pc \<noteq> Settled \<and> pc' \<noteq> Settled \<longrightarrow> i = j) \<and>
      (\<forall>i pc cur. tickAt m i = Some pc \<and> currentBlockOf pc = Some cur \<longrightarrow>
         lastCheckedBlock m < cur))"

text \<open>A run in which the timer fires only when every earlier callback has ended.\<close>

fun serial :: "monitor_env \<Rightarrow> (nat \<times> event) list \<Rightarrow> monitor \<Rightarrow> bool" where
  "serial env [] m = True"
| "serial env (te # rest) m =
     (case step env te m of
        None \<Rightarrow> False
      | Some m' \<Rightarrow>
          (case snd te of
             Interval \<Rightarrow> list_all (\<lambda>pc. pc = Settled) (ticks m)
           | _ \<Rightarrow> True) \<and>
          serial env rest m')"




section \<open>Concrete inputs\<close>

text \<open>
  A wallet on one network, a token contract whose calls settle as given, and a chain
  that answers every address with that contract and formats 1000 units of a token with
  6 decimals.
\<close>

definition demoEnv :: monitor_env where
  "demoEnv = \<lparr>netName = ''Ethereum'',
              senderAddress = ''0x1111111111111111111111111111111111111111'',
              recipient = ''0x2222222222222222222222222222222222222222''\<rparr>"

definition erc20 :: "string result \<Rightarrow> nat result \<Rightarrow> string result \<Rightarrow> nat result \<Rightarrow> contract" where
  "erc20 s d n bal =
     \<lparr>c_symbol = s, c_decimals = d, c_name = Some n,
      c_balanceOf = (\<lambda>owner. bal),
      c_transfer = (\<lambda>to amount. Inr \<lparr>tx_hash = ''0xfeed'', tx_wait = Inr ()\<rparr>)\<rparr>"

definition chainOf :: "contract \<Rightarrow> chain" where
  "chainOf c = \<lparr>Contract = (\<lambda>tokenAddress. Inr c), formatUnits = (\<lambda>amount d. Inr ''0.001'')\<rparr>"

definition usdc :: string where
  "usdc = ''0xa0b86991c6218b36c1d19d4a2e9eb0ce3606eb48''"

definition usdcDetails :: token_details where
  "usdcDetails = \<lparr>symbol = ''USDC'', decimals = 6, name = ''USD Coin''\<rparr>"

definition rpcDown :: error where
  "rpcDown = Error (Some ''NETWORK_ERROR'') ''could not detect network''"

definition logA :: log_entry where
  "logA = \<lparr>transactionHash = ''0x5c504ed432cb51138bcf09aa5e8a410dd4a1e204'',
            address = ''0xA0b86991c6218b36c1d19D4a2e9Eb0cE3606eB48'', blockNumber = 95\<rparr>"

text \<open>A second \<open>Transfer\<close> event of the same transaction, emitted by another token.\<close>

definition logB :: log_entry where
  "logB = \<lparr>transactionHash = ''0x5c504ed432cb51138bcf09aa5e8a410dd4a1e204'',
            address = ''0x6B175474E89094C44Da98b954EedeAC495271d0F'', blockNumber = 95\<rparr>"

definition funded :: chain where
  "funded = chainOf (erc20 (Inr ''USDC'') (Inr 6) (Inr ''USD Coin'') (Inr 1000))"

text \<open>
  A monitor started at block 90 without custom tokens, whose first callback has read
  block 100 and asked for the logs of blocks 91 to 100.
\<close>

definition polled :: monitor where
  "polled = the (exec demoEnv [(15000, Interval), (15100, BlockNumber 0 (Inr 100))]
                  (startMonitoring 0 90 []))"

definition sameBatch :: "(nat \<times> event) list" where
  "sameBatch = [(15500, TokenDetails 0 funded), (75500, Timeout 0), (76400, Transfer 0 funded)]"

definition twoTokens :: "(nat \<times> event) list" where
  "twoTokens =
     [(15000, Interval), (15100, BlockNumber 0 (Inr 100)), (15300, GetLogs 0 (Inr [logA, logB])),
      (15500, TokenDetails 0 funded), (75500, Timeout 0), (76400, Transfer 0 funded),
      (76400, Resume 0), (76400, Resume 0)]"





text \<open>
  One incoming transfer. The callback of second 15 reads block 100, finds the transfer
  and waits the 60 s of line 127. The callbacks of seconds 30 to 75 read blocks 102 to
  105; the first of them gets the same log again and skips it. At second 76 the first
  callback has swept and reaches line 155; the callback of second 90 reads block 106.
\<close>

definition overlapping :: "(nat \<times> event) list" where
  "overlapping =
     [(15000, Interval), (15100, BlockNumber 0 (Inr 100)), (15300, GetLogs 0 (Inr [logA])),
      (15500, TokenDetails 0 funded),
      (30000, Interval), (30100, BlockNumber 1 (Inr 102)), (30300, GetLogs 1 (Inr [logA])),
      (30300, Resume 1),
      (45000, Interval), (45100, BlockNumber 2 (Inr 103)), (45300, GetLogs 2 (Inr [])),
      (60000, Interval), (60100, BlockNumber 3 (Inr 104)), (60300, GetLogs 3 (Inr [])),
      (75000, Interval), (75100, BlockNumber 4 (Inr 105)), (75300, GetLogs 4 (Inr [])),
      (75500, Timeout 0), (76400, Transfer 0 funded), (76400, Resume 0),
      (90000, Interval), (90100, BlockNumber 5 (Inr 106))]"

definition badKey :: error where
  "badKey = Error (Some ''INVALID_ARGUMENT'') ''invalid BytesLike value (argument=value)''"

text \<open>
  What \<open>new Wallet\<close> throws for a private key of hexadecimal digits that is not 32 bytes
  long, such as \<open>1234\<close>: the code is that of every rejected argument, the message names
  the private key.
\<close>

definition shortKey :: error where
  "shortKey = Error (Some ''INVALID_ARGUMENT'')
     ''invalid private key (argument=privateKey, value=[REDACTED], code=INVALID_ARGUMENT)''"

definition shortKeyProcess :: process_env where
  "shortKeyProcess = \<lparr>PRIVATE_KEY = ''1234'',
       RECIPIENT_ADDRESS = ''0x2222222222222222222222222222222222222222'',
       CUSTOM_TOKENS = None\<rparr>"

text \<open>
  A library that builds a wallet from a key of 64 hexadecimal digits, and tells a key
  of another length from a key that is no hexadecimal string.
\<close>

definition strictWallet :: "string \<Rightarrow> string result" where
  "strictWallet key =
     (if list_all isHexDigit (toLowerCase key)
      then (if length key = 64 then Inr ''0x1111111111111111111111111111111111111111''
            else Inl shortKey)
      else Inl badKey)"

definition strictWorld :: "nat result \<Rightarrow> world" where
  "strictWorld height =
     \<lparr>new_JsonRpcProvider = (\<lambda>url. Inr ()), new_Wallet = strictWallet,
      getBlockNumber = height, latency = 250\<rparr>"

definition ethereum :: network_config where
  "ethereum = \<lparr>net_name = ''Ethereum'', rpcUrl = ''https://rpc.example''\<rparr>"

definition demoProcess :: process_env where
  "demoProcess = \<lparr>PRIVATE_KEY = ''k'', RECIPIENT_ADDRESS = recipient demoEnv,
                  CUSTOM_TOKENS = None\<rparr>"

definition worldWith :: "string result \<Rightarrow> nat result \<Rightarrow> world" where
  "worldWith wallet height =
     \<lparr>new_JsonRpcProvider = (\<lambda>url. Inr ()), new_Wallet = (\<lambda>key. wallet),
      getBlockNumber = height, latency = 250\<rparr>"

section \<open>Zero balance\<close>

lemmas io_defs = tryCatch_def andThen_def await_def emit_def ret_def

lemmas run_defs = handleIncomingTransfer_def Let_def startMonitoring_def step_def tickAt_def
  jot_def setTick_def logA_def logB_def funded_def chainOf_def erc20_def getTokenDetails_def
  orDefault_def transferToken_def io_defs demoEnv_def toLowerCase_def toLowerCaseChar_def
  codeUnit_def usdc_def

text \<open>
  C1. When \<open>balanceOf\<close> for the wallet returns exactly zero, \<open>transferToken\<close> returns
  \<open>false\<close>, the no-op result, and the balance read is the only request it made: no
  transfer is submitted and nothing is waited for.
\<close>

theorem transferToken_zero_balance:
  assumes "Contract ch tokenAddress = Inr tokenContract"
    and "c_balanceOf tokenContract (senderAddress env) = Inr 0"
  shows "transferToken ch env tokenAddress tokenDetails =
           ([Call_balanceOf tokenAddress (senderAddress env)], Inr False)"
  using assms by (simp add: transferToken_def io_defs)

theorem transferToken_zero_balance_witness:
  "transferToken (chainOf (erc20 (Inr ''USDC'') (Inr 6) (Inr ''USD Coin'') (Inr 0)))
       demoEnv usdc usdcDetails =
     ([Call_balanceOf usdc (senderAddress demoEnv)], Inr False)"
proof (rule transferToken_zero_balance)
  show "Contract (chainOf (erc20 (Inr ''USDC'') (Inr 6) (Inr ''USD Coin'') (Inr 0))) usdc =
          Inr (erc20 (Inr ''USDC'') (Inr 6) (Inr ''USD Coin'') (Inr 0))"
    by (simp add: chainOf_def)
  show "c_balanceOf (erc20 (Inr ''USDC'') (Inr 6) (Inr ''USD Coin'') (Inr 0))
          (senderAddress demoEnv) = Inr 0"
    by (simp add: erc20_def)
qed

section \<open>What transferToken returns\<close>

text \<open>
  C9. \<open>transferToken\<close> never throws. It returns \<open>true\<close> exactly when the balance was read
  and is not zero, the amount was formatted, the transfer was submitted and \<open>tx.wait()\<close>
  confirmed it; it has then asked for the balance, submitted the transfer of the whole
  balance to the recipient and waited for that transaction, in this order, and a
  result \<open>true\<close> always comes with these two requests. In every other case it returns
  \<open>false\<close>: for a zero balance, where the balance read is its only request, as for a
  failure of any step, where it has made the requests up to the failing one and
  reported the failure; so the return value does not tell the two apart.
\<close>

theorem transferToken_result:
  "snd (transferToken ch env a d) =
     Inr (\<exists>c bal f tx. Contract ch a = Inr c \<and> c_balanceOf c (senderAddress env) = Inr bal \<and>
            bal \<noteq> 0 \<and> formatUnits ch bal (decimals d) = Inr f \<and>
            c_transfer c (recipient env) bal = Inr tx \<and> tx_wait tx = Inr ()) \<and>
   (\<forall>c bal f tx. Contract ch a = Inr c \<and> c_balanceOf c (senderAddress env) = Inr bal \<and>
        bal \<noteq> 0 \<and> formatUnits ch bal (decimals d) = Inr f \<and>
        c_transfer c (recipient env) bal = Inr tx \<and> tx_wait tx = Inr () \<longrightarrow>
      transferToken ch env a d =
        ([Call_balanceOf a (senderAddress env), Log_transferring f (symbol d) (name d),
          Call_transfer a (recipient env) bal, Call_wait (tx_hash tx),
          Log_transferred f (symbol d), Log_txHash (tx_hash tx)], Inr True)) \<and>
   (snd (transferToken ch env a d) = Inr True \<longrightarrow>
      (\<exists>c bal tx. Contract ch a = Inr c \<and> c_balanceOf c (senderAddress env) = Inr bal \<and>
         bal \<noteq> 0 \<and> c_transfer c (recipient env) bal = Inr tx \<and> tx_wait tx = Inr () \<and>
         Call_transfer a (recipient env) bal \<in> set (fst (transferToken ch env a d)) \<and>
         Call_wait (tx_hash tx) \<in> set (fst (transferToken ch env a d)))) \<and>
   (\<forall>c. Contract ch a = Inr c \<and> c_balanceOf c (senderAddress env) = Inr 0 \<longrightarrow>
      transferToken ch env a d = ([Call_balanceOf a (senderAddress env)], Inr False)) \<and>
   (\<forall>e. Contract ch a = Inl e \<longrightarrow>
      transferToken ch env a d = ([Log_transferFailed (symbol d) (message e)], Inr False)) \<and>
   (\<forall>c e. Contract ch a = Inr c \<and> c_balanceOf c (senderAddress env) = Inl e \<longrightarrow>
      transferToken ch env a d =
        ([Call_balanceOf a (senderAddress env), Log_transferFailed (symbol d) (message e)],
         Inr False)) \<and>
   (\<forall>c bal e. Contract ch a = Inr c \<and> c_balanceOf c (senderAddress env) = Inr bal \<and>
        bal \<noteq> 0 \<and> formatUnits ch bal (decimals d) = Inl e \<longrightarrow>
      transferToken ch env a d =
        ([Call_balanceOf a (senderAddress env), Log_transferFailed (symbol d) (message e)],
         Inr False)) \<and>
   (\<forall>c bal f e. Contract ch a = Inr c \<and> c_balanceOf c (senderAddress env) = Inr bal \<and>
        bal \<noteq> 0 \<and> formatUnits ch bal (decimals d) = Inr f \<and>
        c_transfer c (recipient env) bal = Inl e \<longrightarrow>
      transferToken ch env a d =
        ([Call_balanceOf a (senderAddress env), Log_transferring f (symbol d) (name d),
          Call_transfer a (recipient env) bal, Log_transferFailed (symbol d) (message e)],
         Inr False)) \<and>
   (\<forall>c bal f tx e. Contract ch a = Inr c \<and> c_balanceOf c (senderAddress env) = Inr bal \<and>
        bal \<noteq> 0 \<and> formatUnits ch bal (decimals d) = Inr f \<and>
        c_transfer c (recipient env) bal = Inr tx \<and> tx_wait tx = Inl e \<longrightarrow>
      transferToken ch env a d =
        ([Call_balanceOf a (senderAddress env), Log_transferring f (symbol d) (name d),
          Call_transfer a (recipient env) bal, Call_wait (tx_hash tx),
          Log_transferFailed (symbol d) (message e)],
         Inr False)) \<and>
   (\<forall>c. Contract ch a = Inr c \<and> c_balanceOf c (senderAddress env) = Inr 0 \<longrightarrow>
      snd (transferToken ch env a d) = Inr False) \<and>
   (\<forall>e. Contract ch a = Inl e \<longrightarrow> snd (transferToken ch env a d) = Inr False) \<and>
   (\<forall>c e. Contract ch a = Inr c \<and> c_balanceOf c (senderAddress env) = Inl e \<longrightarrow>
      snd (transferToken ch env a d) = Inr False) \<and>
   (\<forall>c bal e. Contract ch a = Inr c \<and> c_balanceOf c (senderAddress env) = Inr bal \<and>
        formatUnits ch bal (decimals d) = Inl e \<longrightarrow>
      snd (transferToken ch env a d) = Inr False) \<and>
   (\<forall>c bal e. Contract ch a = Inr c \<and> c_balanceOf c (senderAddress env) = Inr bal \<and>
        c_transfer c (recipient env) bal = Inl e \<longrightarrow>
      snd (transferToken ch env a d) = Inr False) \<and>
   (\<forall>c bal tx e. Contract ch a = Inr c \<and> c_balanceOf c (senderAddress env) = Inr bal \<and>
        c_transfer c (recipient env) bal = Inr tx \<and> tx_wait tx = Inl e \<longrightarrow>
      snd (transferToken ch env a d) = Inr False)"
  by (intro conjI allI impI; (auto simp add: transferToken_def io_defs split: sum.splits)[1])

text \<open>
  A wallet that holds 1000 units: the transfer is submitted and confirmed. A wallet
  that holds nothing, and an endpoint that does not answer: \<open>false\<close> both times.
\<close>

theorem transferToken_result_witness:
  "transferToken funded demoEnv usdc usdcDetails =
     ([Call_balanceOf usdc (senderAddress demoEnv), Log_transferring ''0.001'' ''USDC'' ''USD Coin'',
       Call_transfer usdc (recipient demoEnv) 1000, Call_wait ''0xfeed'',
       Log_transferred ''0.001'' ''USDC'', Log_txHash ''0xfeed''], Inr True) \<and>
   transferToken (chainOf (erc20 (Inr ''USDC'') (Inr 6) (Inr ''USD Coin'') (Inr 0)))
       demoEnv usdc usdcDetails =
     ([Call_balanceOf usdc (senderAddress demoEnv)], Inr False) \<and>
   transferToken (chainOf (erc20 (Inr ''USDC'') (Inr 6) (Inr ''USD Coin'') (Inl rpcDown)))
       demoEnv usdc usdcDetails =
     ([Call_balanceOf usdc (senderAddress demoEnv),
       Log_transferFailed ''USDC'' ''could not detect network''], Inr False)"
proof (intro conjI)
  have "Contract funded usdc = Inr (erc20 (Inr ''USDC'') (Inr 6) (Inr ''USD Coin'') (Inr 1000)) \<and>
        c_balanceOf (erc20 (Inr ''USDC'') (Inr 6) (Inr ''USD Coin'') (Inr 1000))
          (senderAddress demoEnv) = Inr 1000 \<and>
        (1000::nat) \<noteq> 0 \<and>
        formatUnits funded 1000 (decimals usdcDetails) = Inr ''0.001'' \<and>
        c_transfer (erc20 (Inr ''USDC'') (Inr 6) (Inr ''USD Coin'') (Inr 1000))
          (recipient demoEnv) 1000 = Inr \<lparr>tx_hash = ''0xfeed'', tx_wait = Inr ()\<rparr> \<and>
        tx_wait \<lparr>tx_hash = ''0xfeed'', tx_wait = Inr ()\<rparr> = Inr ()"
    by (simp add: funded_def chainOf_def erc20_def)
  from transferToken_result[of funded demoEnv usdc usdcDetails,
      THEN conjunct2, THEN conjunct1, rule_format, OF this]
  have "transferToken funded demoEnv usdc usdcDetails =
     ([Call_balanceOf usdc (senderAddress demoEnv),
       Log_transferring ''0.001'' (symbol usdcDetails) (name usdcDetails),
       Call_transfer usdc (recipient demoEnv) 1000,
       Call_wait (tx_hash \<lparr>tx_hash = ''0xfeed'', tx_wait = Inr ()\<rparr>),
       Log_transferred ''0.001'' (symbol usdcDetails),
       Log_txHash (tx_hash \<lparr>tx_hash = ''0xfeed'', tx_wait = Inr ()\<rparr>)], Inr True)" .
  then show "transferToken funded demoEnv usdc usdcDetails =
     ([Call_balanceOf usdc (senderAddress demoEnv), Log_transferring ''0.001'' ''USDC'' ''USD Coin'',
       Call_transfer usdc (recipient demoEnv) 1000, Call_wait ''0xfeed'',
       Log_transferred ''0.001'' ''USDC'', Log_txHash ''0xfeed''], Inr True)"
    by (simp add: usdcDetails_def)
next
  have "Contract (chainOf (erc20 (Inr ''USDC'') (Inr 6) (Inr ''USD Coin'') (Inr 0))) usdc =
          Inr (erc20 (Inr ''USDC'') (Inr 6) (Inr ''USD Coin'') (Inr 0)) \<and>
        c_balanceOf (erc20 (Inr ''USDC'') (Inr 6) (Inr ''USD Coin'') (Inr 0))
          (senderAddress demoEnv) = Inr 0"
    by (simp add: chainOf_def erc20_def)
  from transferToken_result
    [of "chainOf (erc20 (Inr ''USDC'') (Inr 6) (Inr ''USD Coin'') (Inr 0))" demoEnv usdc
        usdcDetails, THEN conjunct2, THEN conjunct2, THEN conjunct2, THEN conjunct1,
        rule_format, OF this]
  show "transferToken (chainOf (erc20 (Inr ''USDC'') (Inr 6) (Inr ''USD Coin'') (Inr 0)))
          demoEnv usdc usdcDetails = ([Call_balanceOf usdc (senderAddress demoEnv)], Inr False)" .
next
  have "Contract (chainOf (erc20 (Inr ''USDC'') (Inr 6) (Inr ''USD Coin'') (Inl rpcDown))) usdc =
          Inr (erc20 (Inr ''USDC'') (Inr 6) (Inr ''USD Coin'') (Inl rpcDown)) \<and>
        c_balanceOf (erc20 (Inr ''USDC'') (Inr 6) (Inr ''USD Coin'') (Inl rpcDown))
          (senderAddress demoEnv) = Inl rpcDown"
    by (simp add: chainOf_def erc20_def)
  from transferToken_result
    [of "chainOf (erc20 (Inr ''USDC'') (Inr 6) (Inr ''USD Coin'') (Inl rpcDown))" demoEnv usdc
        usdcDetails, THEN conjunct2, THEN conjunct2, THEN conjunct2, THEN conjunct2,
        THEN conjunct2, THEN conjunct1, rule_format, OF this]
  have "transferToken (chainOf (erc20 (Inr ''USDC'') (Inr 6) (Inr ''USD Coin'') (Inl rpcDown)))
          demoEnv usdc usdcDetails =
        ([Call_balanceOf usdc (senderAddress demoEnv),
          Log_transferFailed (symbol usdcDetails) (message rpcDown)], Inr False)" .
  then show "transferToken (chainOf (erc20 (Inr ''USDC'') (Inr 6) (Inr ''USD Coin'') (Inl rpcDown)))
          demoEnv usdc usdcDetails =
        ([Call_balanceOf usdc (senderAddress demoEnv),
          Log_transferFailed ''USDC'' ''could not detect network''], Inr False)"
    by (simp add: usdcDetails_def rpcDown_def)
qed

section \<open>Token details\<close>

lemma getTokenDetails_total: "\<exists>d. getTokenDetails ch a = Inr d"
  by (simp add: getTokenDetails_def orDefault_def split: sum.splits option.splits)

text \<open>
  C5. \<open>getTokenDetails\<close> never fails. With a contract object at hand, each of the three
  fields is the value the chain returned, or its own default when that lookup failed
  (\<open>UNKNOWN\<close>, 18, \<open>Unknown Token\<close>), whatever the other two lookups did; in particular a
  failed \<open>symbol\<close> lookup beside successful \<open>decimals\<close> and \<open>name\<close> lookups gives
  \<open>UNKNOWN\<close> and the two values of the chain. Without a contract object the result is the
  three defaults.
\<close>

theorem getTokenDetails_per_field:
  "(\<exists>d. getTokenDetails ch a = Inr d) \<and>
   (\<forall>c. Contract ch a = Inr c \<longrightarrow>
      getTokenDetails ch a =
        Inr \<lparr>symbol = (case c_symbol c of Inl e \<Rightarrow> ''UNKNOWN'' | Inr s \<Rightarrow> s),
             decimals = (case c_decimals c of Inl e \<Rightarrow> 18 | Inr d \<Rightarrow> d),
             name = (case c_name c of Some (Inr n) \<Rightarrow> n | _ \<Rightarrow> ''Unknown Token'')\<rparr>) \<and>
   (\<forall>c e d n. Contract ch a = Inr c \<and> c_symbol c = Inl e \<and> c_decimals c = Inr d \<and>
        c_name c = Some (Inr n) \<longrightarrow>
      getTokenDetails ch a = Inr \<lparr>symbol = ''UNKNOWN'', decimals = d, name = n\<rparr>) \<and>
   (\<forall>e. Contract ch a = Inl e \<longrightarrow>
      getTokenDetails ch a =
        Inr \<lparr>symbol = ''UNKNOWN'', decimals = 18, name = ''Unknown Token''\<rparr>)"
  by (auto simp add: getTokenDetails_def orDefault_def split: sum.splits option.splits)

theorem getTokenDetails_per_field_witness:
  "getTokenDetails (chainOf (erc20 (Inl rpcDown) (Inr 6) (Inr ''USD Coin'') (Inr 0))) usdc =
     Inr \<lparr>symbol = ''UNKNOWN'', decimals = 6, name = ''USD Coin''\<rparr>"
proof -
  have "Contract (chainOf (erc20 (Inl rpcDown) (Inr 6) (Inr ''USD Coin'') (Inr 0))) usdc =
          Inr (erc20 (Inl rpcDown) (Inr 6) (Inr ''USD Coin'') (Inr 0)) \<and>
        c_symbol (erc20 (Inl rpcDown) (Inr 6) (Inr ''USD Coin'') (Inr 0)) = Inl rpcDown \<and>
        c_decimals (erc20 (Inl rpcDown) (Inr 6) (Inr ''USD Coin'') (Inr 0)) = Inr 6 \<and>
        c_name (erc20 (Inl rpcDown) (Inr 6) (Inr ''USD Coin'') (Inr 0)) = Some (Inr ''USD Coin'')"
    by (simp add: chainOf_def erc20_def)
  with getTokenDetails_per_field
    [of "chainOf (erc20 (Inl rpcDown) (Inr 6) (Inr ''USD Coin'') (Inr 0))" usdc]
  show ?thesis by blast
qed

section \<open>The custom token list\<close>

lemma isWhiteSpace_toLowerCaseChar: "isWhiteSpace (toLowerCaseChar c) = isWhiteSpace c"
  unfolding isWhiteSpace_def toLowerCaseChar_def codeUnit_def Let_def
  by auto

lemma toLowerCaseChar_idem: "toLowerCaseChar (toLowerCaseChar c) = toLowerCaseChar c"
  unfolding toLowerCaseChar_def codeUnit_def Let_def
  by auto

lemma toLowerCase_idem: "toLowerCase (toLowerCase s) = toLowerCase s"
  by (simp add: toLowerCase_def toLowerCaseChar_idem)

lemma last_dropWhile: "dropWhile P xs \<noteq> [] \<Longrightarrow> last (dropWhile P xs) = last xs"
  by (induction xs) (auto split: if_splits)

lemma trim_ends:
  "trim s = [] \<or> (\<not> isWhiteSpace (hd (trim s)) \<and> \<not> isWhiteSpace (last (trim s)))"
proof (cases "trim s = []")
  case True
  then show ?thesis by simp
next
  case False
  define u where "u = dropWhile isWhiteSpace s"
  define v where "v = dropWhile isWhiteSpace (rev u)"
  have t: "trim s = rev v" by (simp add: trim_def u_def v_def)
  with False have v: "v \<noteq> []" by simp
  then have "rev u \<noteq> []" by (auto simp: v_def)
  then have u: "u \<noteq> []" by simp
  have "\<not> isWhiteSpace (hd v)" using v unfolding v_def by (rule hd_dropWhile)
  moreover have "last v = last (rev u)" using v unfolding v_def by (rule last_dropWhile)
  then have "last v = hd u" using u by (simp add: last_rev)
  moreover have "\<not> isWhiteSpace (hd u)" using u unfolding u_def by (rule hd_dropWhile)
  ultimately show ?thesis using v t by (simp add: hd_rev last_rev)
qed

lemma trim_fixed:
  assumes "s = [] \<or> (\<not> isWhiteSpace (hd s) \<and> \<not> isWhiteSpace (last s))"
  shows "trim s = s"
proof (cases "s = []")
  case True
  then show ?thesis by (simp add: trim_def)
next
  case False
  with assms have h: "\<not> isWhiteSpace (hd s)" and l: "\<not> isWhiteSpace (last s)" by auto
  from False h have "dropWhile isWhiteSpace s = s" by (cases s) auto
  moreover from False l have "dropWhile isWhiteSpace (rev s) = rev s"
    by (cases "rev s")
      (auto simp: hd_rev[symmetric] simp del: rev_is_Nil_conv dest: arg_cong[where f=hd])
  ultimately show ?thesis by (simp add: trim_def)
qed

lemma trim_toLowerCase_trim: "trim (toLowerCase (trim e)) = toLowerCase (trim e)"
proof (rule trim_fixed)
  show "toLowerCase (trim e) = [] \<or>
      (\<not> isWhiteSpace (hd (toLowerCase (trim e))) \<and>
       \<not> isWhiteSpace (last (toLowerCase (trim e))))"
    using trim_ends[of e]
    by (auto simp: toLowerCase_def hd_map last_map isWhiteSpace_toLowerCaseChar)
qed

lemma startsWith_0x: "startsWith a ''0x'' = (take 2 a = ''0x'')"
  by (simp add: startsWith_def numeral_2_eq_2)

text \<open>
  C6, as the claim states it, fails: the filter looks at the length and the prefix
  only. An entry of 42 characters that starts with \<open>0x\<close> and goes on with forty
  letters \<open>z\<close> is kept, though it is no hexadecimal string.
\<close>

theorem customTokenAddresses_keeps_non_hex:
  "customTokenAddresses (Some ''0xzzzzzzzzzzzzzzzzzzzzzzzzzzzzzzzzzzzzzzzz'') =
     [''0xzzzzzzzzzzzzzzzzzzzzzzzzzzzzzzzzzzzzzzzz''] \<and>
   \<not> isHexAddress ''0xzzzzzzzzzzzzzzzzzzzzzzzzzzzzzzzzzzzzzzzz''"
  by code_simp

text \<open>
  C6, amended. The parsed list holds, in the order of the configuration string,
  exactly the entries that after trimming and lower-casing are 42 characters long and
  start with \<open>0x\<close>. Every entry that is a well-formed hexadecimal address in any
  letter case is therefore kept, in lower case; and every member of the list has length
  42 and the prefix \<open>0x\<close>, is in lower case and has no white space at its ends. The
  forty characters after the prefix are not examined.
\<close>

theorem customTokenAddresses_shape:
  "customTokenAddresses v =
     filter (\<lambda>a. length a = 42 \<and> take 2 a = ''0x'')
       (map (\<lambda>e. toLowerCase (trim e)) (split_on CHR '','' (customTokensEnv v))) \<and>
   (\<forall>e \<in> set (split_on CHR '','' (customTokensEnv v)).
      isHexAddress (toLowerCase (trim e)) \<longrightarrow>
        toLowerCase (trim e) \<in> set (customTokenAddresses v)) \<and>
   (\<forall>a \<in> set (customTokenAddresses v).
      length a = 42 \<and> take 2 a = ''0x'' \<and> toLowerCase a = a \<and> trim a = a)"
  by (auto simp add: customTokenAddresses_def startsWith_0x isHexAddress_def
        toLowerCase_idem trim_toLowerCase_trim)

theorem customTokenAddresses_shape_witness:
  "''0xa0b86991c6218b36c1d19d4a2e9eb0ce3606eb48'' \<in>
     set (customTokenAddresses (Some ''0x12, 0xA0b86991c6218b36c1d19D4a2e9Eb0cE3606eB48 ''))"
proof -
  have mem: "'' 0xA0b86991c6218b36c1d19D4a2e9Eb0cE3606eB48 '' \<in>
      set (split_on CHR '',''
            (customTokensEnv (Some ''0x12, 0xA0b86991c6218b36c1d19D4a2e9Eb0cE3606eB48 '')))"
    by code_simp
  have norm: "toLowerCase (trim '' 0xA0b86991c6218b36c1d19D4a2e9Eb0cE3606eB48 '') =
      ''0xa0b86991c6218b36c1d19d4a2e9eb0ce3606eb48''"
    by code_simp
  have hex: "isHexAddress ''0xa0b86991c6218b36c1d19d4a2e9eb0ce3606eb48''"
    by code_simp
  from customTokenAddresses_shape
    [of "Some ''0x12, 0xA0b86991c6218b36c1d19D4a2e9Eb0cE3606eB48 ''"] mem
  have "isHexAddress (toLowerCase (trim '' 0xA0b86991c6218b36c1d19D4a2e9Eb0cE3606eB48 '')) \<longrightarrow>
      toLowerCase (trim '' 0xA0b86991c6218b36c1d19D4a2e9Eb0cE3606eB48 '') \<in>
        set (customTokenAddresses (Some ''0x12, 0xA0b86991c6218b36c1d19D4a2e9Eb0cE3606eB48 ''))"
    by blast
  with norm hex show ?thesis by simp
qed

section \<open>Steps of the machine\<close>

lemma transferToken_total: "\<exists>ok. snd (transferToken ch env a d) = Inr ok"
  by (auto simp add: transferToken_def io_defs split: sum.splits)

lemma getTokenDetails_not_Inl [simp]: "getTokenDetails ch a \<noteq> Inl e"
  using getTokenDetails_total[of ch a] by auto

lemma transferToken_not_Inl [simp]: "transferToken ch env a d \<noteq> (effs, Inl e)"
  using transferToken_total[of ch env a d] by auto

lemma jot_fields [simp]:
  "lastCheckedBlock (jot n m) = lastCheckedBlock m"
  "processedTxs (jot n m) = processedTxs m"
  "ticks (jot n m) = ticks m"
  "pass (jot n m) = pass m"
  "clock (jot n m) = clock m"
  "nextInterval (jot n m) = nextInterval m"
  "journal (jot n m) = n # journal m"
  by (simp_all add: jot_def)

lemma setTick_fields [simp]:
  "lastCheckedBlock (setTick i pc m) = lastCheckedBlock m"
  "processedTxs (setTick i pc m) = processedTxs m"
  "ticks (setTick i pc m) = (ticks m)[i := pc]"
  "pass (setTick i pc m) = pass m"
  "clock (setTick i pc m) = clock m"
  "nextInterval (setTick i pc m) = nextInterval m"
  "journal (setTick i pc m) = journal m"
  by (simp_all add: setTick_def)

lemma tickAt_fields [simp]:
  "tickAt (jot n m) = tickAt m"
  "tickAt (m\<lparr>clock := t\<rparr>) = tickAt m"
  "tickAt (m\<lparr>processedTxs := p\<rparr>) = tickAt m"
  "tickAt (m\<lparr>lastCheckedBlock := b\<rparr>) = tickAt m"
  by (simp_all add: tickAt_def fun_eq_iff)

text \<open>The three ways an iteration of the loop can go.\<close>

lemma forLoop_cases [case_names Advance Skip Mark]:
  assumes "logs = [] \<Longrightarrow> P (jot (Advanced i cur) (setTick i Settled (m\<lparr>lastCheckedBlock := cur\<rparr>)))"
    and "\<And>l ls. logs = l # ls \<Longrightarrow> transactionHash l \<in> processedTxs m \<Longrightarrow>
           P (setTick i (AwaitHandler cur l Returned ls) (jot (Skipped i l) m))"
    and "\<And>l ls. logs = l # ls \<Longrightarrow> transactionHash l \<notin> processedTxs m \<Longrightarrow>
           P (setTick i (AwaitHandler cur l (AwaitDetails (toLowerCase (address l))) ls)
               (jot (Marked i l) (m\<lparr>processedTxs := insert (transactionHash l) (processedTxs m)\<rparr>)))"
  shows "P (forLoop i cur logs m)"
  using assms by (cases logs) (auto simp: handleIncomingTransfer_def Let_def)

lemma step_cases [consumes 1, case_names Interval Quiet Query Logs Details Timeout Transfer Resume
    PassDetails PassTransfer]:
  assumes "step env (t, ev) m = Some m'"
  obtains
    (Interval) "ev = Interval" "clock m \<le> t" "nextInterval m \<le> t"
      "m' = m\<lparr>clock := t, ticks := ticks m @ [AwaitBlockNumber], nextInterval := t + 15000\<rparr>"
  | (Quiet) i pc where "clock m \<le> t" "tickAt m i = Some pc"
      "pc = AwaitBlockNumber \<or> (\<exists>cur. pc = AwaitLogs cur)"
      "(\<exists>e. ev = BlockNumber i (Inl e)) \<or> (\<exists>cur. ev = BlockNumber i (Inr cur) \<and> cur \<le> lastCheckedBlock m)
         \<or> (\<exists>e. ev = GetLogs i (Inl e))"
      "m' = setTick i Settled (m\<lparr>clock := t\<rparr>)"
  | (Query) i cur where "ev = BlockNumber i (Inr cur)" "clock m \<le> t"
      "tickAt m i = Some AwaitBlockNumber" "lastCheckedBlock m < cur"
      "m' = jot (Queried i (lastCheckedBlock m + 1) cur) (setTick i (AwaitLogs cur) (m\<lparr>clock := t\<rparr>))"
  | (Logs) i cur logs where "ev = GetLogs i (Inr logs)" "clock m \<le> t"
      "tickAt m i = Some (AwaitLogs cur)"
      "m' = forLoop i cur logs (jot (Batch i logs) (m\<lparr>clock := t\<rparr>))"
  | (Details) i cur l a ls ch d where "ev = TokenDetails i ch" "clock m \<le> t"
      "tickAt m i = Some (AwaitHandler cur l (AwaitDetails a) ls)"
      "getTokenDetails ch a = Inr d"
      "m' = jot (Announced i l d)
              (setTick i (AwaitHandler cur l (AwaitTimeout a d (t + 60000)) ls) (m\<lparr>clock := t\<rparr>))"
  | (Timeout) i cur l a d due ls where "ev = Timeout i" "clock m \<le> t" "due \<le> t"
      "tickAt m i = Some (AwaitHandler cur l (AwaitTimeout a d due) ls)"
      "m' = jot (SweepStarted i l d)
              (setTick i (AwaitHandler cur l (AwaitTransfer a d) ls) (m\<lparr>clock := t\<rparr>))"
  | (Transfer) i cur l a d ls ch ok effs where "ev = Transfer i ch" "clock m \<le> t"
      "tickAt m i = Some (AwaitHandler cur l (AwaitTransfer a d) ls)"
      "transferToken ch env a d = (effs, Inr ok)"
      "m' = jot (SweepEnded i l ok effs)
              (setTick i (AwaitHandler cur l Returned ls) (m\<lparr>clock := t\<rparr>))"
  | (Resume) i cur l ls where "ev = Resume i" "clock m \<le> t"
      "tickAt m i = Some (AwaitHandler cur l Returned ls)"
      "m' = forLoop i cur ls (m\<lparr>clock := t\<rparr>)"
  | (PassDetails) a rest ch d where "ev = PassTokenDetails ch" "clock m \<le> t"
      "pass m = PassDetails a rest" "getTokenDetails ch a = Inr d"
      "m' = jot (PassSweepStarted a d) (m\<lparr>clock := t, pass := PassTransfer a d rest\<rparr>)"
  | (PassTransfer) a d rest ch ok effs where "ev = PassTransferred ch" "clock m \<le> t"
      "pass m = PassTransfer a d rest" "transferToken ch env a d = (effs, Inr ok)"
      "m' = passLoop rest (jot (PassSweepEnded a ok effs) (m\<lparr>clock := t\<rparr>))"
proof (cases ev)
  case Interval
  with assms that(1) show ?thesis
    by (auto simp: step_def split: if_splits)
next
  case (BlockNumber i r)
  with assms that(2,3) show ?thesis
    by (auto simp: step_def split: if_splits option.splits tick_pc.splits sum.splits)
next
  case (GetLogs i r)
  with assms that(2,4) show ?thesis
    by (auto simp: step_def split: if_splits option.splits tick_pc.splits sum.splits)
next
  case (TokenDetails i ch)
  with assms that(5) show ?thesis
    by (auto simp: step_def split: if_splits option.splits tick_pc.splits handler_pc.splits sum.splits) 
next
  case (Timeout i)
  with assms that(6) show ?thesis
    by (auto simp: step_def not_less split: if_splits option.splits tick_pc.splits handler_pc.splits)
next
  case (Transfer i ch)
  with assms that(7) show ?thesis
    by (auto simp: step_def split: if_splits option.splits tick_pc.splits handler_pc.splits sum.splits prod.splits)
next
  case (Resume i)
  with assms that(8) show ?thesis
    by (auto simp: step_def not_less split: if_splits option.splits tick_pc.splits handler_pc.splits)
next
  case (PassTokenDetails ch)
  with assms that(9) show ?thesis
    by (auto simp: step_def jot_def split: if_splits pass_pc.splits sum.splits)
next
  case (PassTransferred ch)
  with assms that(10) show ?thesis
    by (auto simp: step_def split: if_splits pass_pc.splits sum.splits prod.splits)
qed


lemma passLoop_fields [simp]:
  "lastCheckedBlock (passLoop rest m) = lastCheckedBlock m"
  "processedTxs (passLoop rest m) = processedTxs m"
  "ticks (passLoop rest m) = ticks m"
  "clock (passLoop rest m) = clock m"
  "nextInterval (passLoop rest m) = nextInterval m"
  "tickAt (passLoop rest m) = tickAt m"
  "markedLogs (journal (passLoop rest m)) = markedLogs (journal m)"
  "sweptLogs (journal (passLoop rest m)) = sweptLogs (journal m)"
  by (cases rest; simp add: tickAt_def fun_eq_iff)+

lemma tickAt_setTick:
  "tickAt (setTick i pc m) j = (if j = i \<and> i < length (ticks m) then Some pc else tickAt m j)"
  by (auto simp: tickAt_def)

lemma tickAt_more [simp]:
  "tickAt (m\<lparr>pass := p\<rparr>) = tickAt m"
  "tickAt (m\<lparr>clock := t, ticks := ticks m @ [pc], nextInterval := n\<rparr>) j =
     (if j = length (ticks m) then Some pc else tickAt m j)"
  by (auto simp: tickAt_def fun_eq_iff nth_append)

lemma tickAt_length: "tickAt m i = Some pc \<Longrightarrow> i < length (ticks m)"
  by (auto simp: tickAt_def split: if_splits)

lemma forLoop_processedTxs: "processedTxs m \<subseteq> processedTxs (forLoop i cur logs m)"
  by (rule forLoop_cases) auto

lemma step_processedTxs_mono:
  assumes "step env te m = Some m'"
  shows "processedTxs m \<subseteq> processedTxs m'"
proof -
  obtain t ev where te: "te = (t, ev)" by (cases te)
  from assms[unfolded te] show ?thesis
    by (cases rule: step_cases) (use forLoop_processedTxs in \<open>auto simp: subset_iff\<close>)
qed

lemma exec_invariant:
  assumes "exec env sched m = Some m'" and "P m"
    and "\<And>te a b. step env te a = Some b \<Longrightarrow> P a \<Longrightarrow> P b"
  shows "P m'"
  using assms(1,2)
proof (induction sched arbitrary: m)
  case Nil
  then show ?case by simp
next
  case (Cons te sched)
  then show ?case by (auto split: option.splits intro: assms(3))
qed

lemma exec_processedTxs_mono:
  assumes "exec env sched m = Some m'"
  shows "processedTxs m \<subseteq> processedTxs m'"
proof -
  have "processedTxs m \<subseteq> processedTxs m'"
    using assms
    by (rule exec_invariant[where P = "\<lambda>x. processedTxs m \<subseteq> processedTxs x"])
       (use step_processedTxs_mono in blast)+
  then show ?thesis .
qed

section \<open>The same transaction twice\<close>

text \<open>
  C2. Let the loop of a callback invoke \<open>handleIncomingTransfer\<close> on a log entry, and
  let it be invoked later, after any events at all (while the first invocation is
  suspended at an \<open>await\<close> or after it has ended), on a log entry with the same
  \<open>transactionHash\<close>. After the first invocation's code up to its first \<open>await\<close> the
  hash is in \<open>processedTxs\<close>; the second invocation returns at line 112: it resolves no
  token details, starts no timer and calls no \<open>transferToken\<close>, so at most the first
  invocation sweeps.
\<close>

theorem second_invocation_returns_at_once:
  assumes "forLoop i cur (l1 # ls) m = m1"
    and "exec env sched m1 = Some m2"
    and "transactionHash l2 = transactionHash l1"
  shows "transactionHash l1 \<in> processedTxs m1 \<and>
         handleIncomingTransfer j l2 m2 = (Returned, jot (Skipped j l2) m2)"
proof -
  from assms(1) have "transactionHash l1 \<in> processedTxs m1"
    by (auto simp: handleIncomingTransfer_def Let_def split: if_splits)
  moreover from assms(2) have "processedTxs m1 \<subseteq> processedTxs m2"
    by (rule exec_processedTxs_mono)
  ultimately show ?thesis using assms(3)
    by (auto simp: handleIncomingTransfer_def Let_def)
qed

text \<open>
  Two entries of one transaction in one batch: the loop marks \<open>logA\<close>, its handler
  resolves the details, waits and sweeps; the handler of \<open>logB\<close> then returns at once.
\<close>

theorem second_invocation_returns_at_once_witness:
  "handleIncomingTransfer 0 logB
     (the (exec demoEnv sameBatch (forLoop 0 100 [logA, logB] polled))) =
   (Returned,
    jot (Skipped 0 logB) (the (exec demoEnv sameBatch (forLoop 0 100 [logA, logB] polled))))"
proof -
  have "exec demoEnv sameBatch (forLoop 0 100 [logA, logB] polled) \<noteq> None"
    by (simp add: sameBatch_def polled_def handleIncomingTransfer_def startMonitoring_def
          step_def tickAt_def jot_def setTick_def logA_def logB_def funded_def chainOf_def
          erc20_def getTokenDetails_def orDefault_def transferToken_def io_defs demoEnv_def
          toLowerCase_def toLowerCaseChar_def codeUnit_def)
  then have run: "exec demoEnv sameBatch (forLoop 0 100 [logA, logB] polled) =
      Some (the (exec demoEnv sameBatch (forLoop 0 100 [logA, logB] polled)))"
    by simp
  have same: "transactionHash logB = transactionHash logA"
    by (simp add: logA_def logB_def)
  from second_invocation_returns_at_once[OF refl run same] show ?thesis
    by simp
qed

section \<open>One sweep for a transaction\<close>

lemma pendingAt_simps [simp]:
  "pendingAt (jot n m) = pendingAt m"
  "pendingAt (m\<lparr>clock := t\<rparr>) = pendingAt m"
  "pendingAt (m\<lparr>processedTxs := p\<rparr>) = pendingAt m"
  "pendingAt (m\<lparr>lastCheckedBlock := b\<rparr>) = pendingAt m"
  "pendingAt (m\<lparr>pass := q\<rparr>) = pendingAt m"
  "pendingAt (passLoop rest m) = pendingAt m"
  by (simp_all add: pendingAt_def fun_eq_iff)

lemma pendingAt_setTick:
  "pendingAt (setTick i pc m) j =
     (if j = i \<and> i < length (ticks m) then pendingLog pc else pendingAt m j)"
  by (simp add: pendingAt_def tickAt_setTick)

lemma pendingAt_Interval [simp]:
  "pendingAt (m\<lparr>clock := t, ticks := ticks m @ [AwaitBlockNumber], nextInterval := n\<rparr>) =
     pendingAt m"
  by (auto simp: pendingAt_def fun_eq_iff tickAt_def nth_append less_Suc_eq)

lemma pendingAt_tickAt: "tickAt m i = Some pc \<Longrightarrow> pendingAt m i = pendingLog pc"
  by (simp add: pendingAt_def)

lemma ledger_inv_known:
  assumes "ledger_inv m"
  shows "x \<in> set (markedLogs (journal m)) \<Longrightarrow> transactionHash x \<in> processedTxs m"
    and "x \<in> set (sweptLogs (journal m)) \<Longrightarrow> transactionHash x \<in> processedTxs m"
    and "pendingAt m j = Some x \<Longrightarrow> transactionHash x \<in> processedTxs m"
  using assms unfolding ledger_inv_def by blast+

lemma ledger_inv_forLoop:
  assumes "ledger_inv m"
  shows "ledger_inv (forLoop i cur logs m)"
proof (rule forLoop_cases)
  assume "logs = []"
  from assms show "ledger_inv (jot (Advanced i cur) (setTick i Settled (m\<lparr>lastCheckedBlock := cur\<rparr>)))"
    unfolding ledger_inv_def
    by (simp add: pendingAt_setTick split: if_splits)
next
  fix l ls
  assume "logs = l # ls" "transactionHash l \<in> processedTxs m"
  from assms show "ledger_inv (setTick i (AwaitHandler cur l Returned ls) (jot (Skipped i l) m))"
    unfolding ledger_inv_def
    by (simp add: pendingAt_setTick split: if_splits)
next
  fix l ls
  assume "logs = l # ls" and new: "transactionHash l \<notin> processedTxs m"
  have fresh: "transactionHash l \<notin> transactionHash ` set (markedLogs (journal m))"
    "transactionHash l \<notin> transactionHash ` set (sweptLogs (journal m))"
    "\<And>j x. pendingAt m j = Some x \<Longrightarrow> transactionHash x \<noteq> transactionHash l"
    using new ledger_inv_known[OF assms] by (auto, metis)
  from assms fresh
  show "ledger_inv (setTick i (AwaitHandler cur l (AwaitDetails (toLowerCase (address l))) ls)
          (jot (Marked i l) (m\<lparr>processedTxs := insert (transactionHash l) (processedTxs m)\<rparr>)))"
    unfolding ledger_inv_def
    apply (simp add: pendingAt_setTick split: if_splits)
    apply (intro conjI impI allI)
    apply blast+
    done
qed

lemma ledger_inv_step:
  assumes "step env te m = Some m'" and inv: "ledger_inv m"
  shows "ledger_inv m'"
proof -
  obtain t ev where te: "te = (t, ev)" by (cases te)
  have clk: "\<And>n. ledger_inv (m\<lparr>clock := n\<rparr>)"
    using inv unfolding ledger_inv_def by simp
  from assms(1)[unfolded te] show ?thesis
  proof (cases rule: step_cases)
    case Interval
    with inv show ?thesis
      unfolding ledger_inv_def by simp
  next
    case (Quiet i pc)
    with inv show ?thesis
      unfolding ledger_inv_def by (simp add: pendingAt_setTick split: if_splits)
  next
    case (Query i cur)
    with inv show ?thesis
      unfolding ledger_inv_def by (simp add: pendingAt_setTick split: if_splits)
  next
    case (Logs i cur logs)
    have "ledger_inv (jot (Batch i logs) (m\<lparr>clock := t\<rparr>))"
      using inv unfolding ledger_inv_def by simp
    with Logs show ?thesis by (simp add: ledger_inv_forLoop)
  next
    case (Details i cur l a ls ch d)
    then have same: "pendingAt m' = pendingAt m"
      by (auto simp: fun_eq_iff pendingAt_setTick dest: pendingAt_tickAt)
    with inv Details show ?thesis
      unfolding ledger_inv_def by simp
  next
    case (Timeout i cur l a d due ls)
    then have p: "pendingAt m i = Some l"
      and p': "\<And>j. pendingAt m' j = (if j = i then None else pendingAt m j)"
      by (auto simp: pendingAt_setTick dest: pendingAt_tickAt tickAt_length)
    have j: "markedLogs (journal m') = markedLogs (journal m)"
      "sweptLogs (journal m') = l # sweptLogs (journal m)"
      "processedTxs m' = processedTxs m"
      using Timeout by simp_all
    from inv p have "l \<in> set (markedLogs (journal m))"
      "transactionHash l \<notin> transactionHash ` set (sweptLogs (journal m))"
      "\<And>j x. j \<noteq> i \<Longrightarrow> pendingAt m j = Some x \<Longrightarrow> transactionHash x \<noteq> transactionHash l"
      unfolding ledger_inv_def by (blast, blast, metis)
    with inv show ?thesis
      unfolding ledger_inv_def p' j
      by (simp split: if_splits)
  next
    case (Transfer i cur l a d ls ch ok effs)
    with inv show ?thesis
      unfolding ledger_inv_def by (simp add: pendingAt_setTick split: if_splits)
  next
    case (Resume i cur l ls)
    with clk show ?thesis by (simp add: ledger_inv_forLoop)
  next
    case (PassDetails a rest ch d)
    with inv show ?thesis
      unfolding ledger_inv_def by simp
  next
    case (PassTransfer a d rest ch ok effs)
    with inv show ?thesis
      unfolding ledger_inv_def by simp
  qed
qed



lemma ledger_inv_start: "ledger_inv (startMonitoring t h tokens)"
  by (cases tokens) (simp_all add: ledger_inv_def startMonitoring_def pendingAt_def tickAt_def)

lemma ledger_inv_exec:
  assumes "exec env sched (startMonitoring t h tokens) = Some m"
  shows "ledger_inv m"
  using assms ledger_inv_start
  by (rule exec_invariant) (rule ledger_inv_step)

text \<open>
  C10. The set is keyed by \<open>transactionHash\<close> alone. In every run of a monitor, no two
  of the logs that passed the test of line 112 share a hash, no two of the logs swept
  by a handler share a hash, and a swept log passed the test; so of two log entries
  with one hash and different token addresses at most one is handled, and at most one
  token is swept for a transaction. Once an entry is handled, an invocation on any
  entry with its hash returns at line 112, whatever token the entry names.
\<close>

theorem one_sweep_per_transaction:
  assumes "exec env sched (startMonitoring t h tokens) = Some m"
  shows "distinct (map transactionHash (markedLogs (journal m))) \<and>
         distinct (map transactionHash (sweptLogs (journal m))) \<and>
         set (sweptLogs (journal m)) \<subseteq> set (markedLogs (journal m)) \<and>
         (\<forall>l \<in> set (sweptLogs (journal m)). \<forall>l' \<in> set (sweptLogs (journal m)).
            transactionHash l = transactionHash l' \<longrightarrow> address l = address l') \<and>
         (\<forall>l \<in> set (markedLogs (journal m)). \<forall>j l'.
            transactionHash l' = transactionHash l \<longrightarrow>
              handleIncomingTransfer j l' m = (Returned, jot (Skipped j l') m))"
proof -
  from assms have inv: "ledger_inv m" by (rule ledger_inv_exec)
  then have d: "distinct (map transactionHash (sweptLogs (journal m)))"
    by (simp add: ledger_inv_def)
  have "\<And>l l'. l \<in> set (sweptLogs (journal m)) \<Longrightarrow> l' \<in> set (sweptLogs (journal m)) \<Longrightarrow>
      transactionHash l = transactionHash l' \<Longrightarrow> l = l'"
    using d by (auto simp: distinct_map dest: inj_onD)
  moreover have "\<And>l j l'. l \<in> set (markedLogs (journal m)) \<Longrightarrow>
      transactionHash l' = transactionHash l \<Longrightarrow>
      handleIncomingTransfer j l' m = (Returned, jot (Skipped j l') m)"
    using ledger_inv_known(1)[OF inv] by (simp add: handleIncomingTransfer_def)
  ultimately show ?thesis
    using inv unfolding ledger_inv_def by blast
qed


text \<open>
  A batch with two entries of one transaction that name different tokens: the first is
  swept, and an invocation on the second returns at once.
\<close>

theorem one_sweep_per_transaction_witness:
  "distinct (map transactionHash
     (sweptLogs (journal (the (exec demoEnv twoTokens (startMonitoring 0 90 [])))))) \<and>
   sweptLogs (journal (the (exec demoEnv twoTokens (startMonitoring 0 90 [])))) = [logA] \<and>
   handleIncomingTransfer 1 logB (the (exec demoEnv twoTokens (startMonitoring 0 90 []))) =
     (Returned, jot (Skipped 1 logB) (the (exec demoEnv twoTokens (startMonitoring 0 90 []))))"
proof -
  have "exec demoEnv twoTokens (startMonitoring 0 90 []) \<noteq> None"
    by (simp add: twoTokens_def run_defs)
  then have run: "exec demoEnv twoTokens (startMonitoring 0 90 []) =
      Some (the (exec demoEnv twoTokens (startMonitoring 0 90 [])))"
    by simp
  have marked: "logA \<in> set (markedLogs
      (journal (the (exec demoEnv twoTokens (startMonitoring 0 90 [])))))"
    by (simp add: twoTokens_def run_defs)
  have swept: "sweptLogs (journal (the (exec demoEnv twoTokens (startMonitoring 0 90 [])))) =
      [logA]"
    by (simp add: twoTokens_def run_defs)
  have same: "transactionHash logB = transactionHash logA"
    by (simp add: logA_def logB_def)
  from one_sweep_per_transaction[OF run] marked same swept show ?thesis
    by blast
qed

section \<open>Errors while starting\<close>

lemma startMonitoring_fresh:
  "lastCheckedBlock (startMonitoring t h tokens) = h"
  "processedTxs (startMonitoring t h tokens) = {}"
  "ticks (startMonitoring t h tokens) = []"
  "clock (startMonitoring t h tokens) = t"
  "nextInterval (startMonitoring t h tokens) = t + 15000"
  by (cases tokens; simp add: startMonitoring_def)+

text \<open>
  What the \<open>catch\<close> of line 174 does with an error that ends the start of a monitor
  (the \<open>try\<close> block before \<open>setInterval\<close>; after it nothing in the block can throw). An
  error that passes the test of lines 175-178 is reported and nothing is scheduled. Any
  other error is reported and \<open>monitorAndTransfer\<close> is scheduled again for the same
  configuration, 30000 ms after the error.
\<close>

lemma catchBlock_policy:
  assumes "startUp w penv networkConfig t = Inl err"
  shows "(isInvalidPrivateKey err \<longrightarrow>
            monitorAndTransfer w penv networkConfig t =
              Stopped [Say_invalid_private_key (net_name networkConfig),
                       Say_ensure_private_key (net_name networkConfig)]) \<and>
         (\<not> isInvalidPrivateKey err \<longrightarrow>
            monitorAndTransfer w penv networkConfig t =
              Restarting [Say_fatal_error (net_name networkConfig) err,
                          Say_restarting (net_name networkConfig)]
                (t + latency w + 30000) networkConfig \<and>
            (\<forall>w'. restart w' penv (monitorAndTransfer w penv networkConfig t) =
                 monitorAndTransfer w' penv networkConfig (t + latency w + 30000)))"
  using assms
  by (auto simp add: monitorAndTransfer_def catchBlock_def split: sum.splits)

text \<open>
  A start that meets no error reaches \<open>setInterval\<close> with an empty \<open>processedTxs\<close>, no
  callback in flight and the block number it has just read as its checkpoint,
  whatever went before: a restarted monitor is a fresh one.
\<close>

lemma monitoring_is_fresh:
  assumes "new_JsonRpcProvider w (rpcUrl networkConfig) = Inr u"
    and "new_Wallet w (PRIVATE_KEY penv) = Inr walletAddress"
    and "length (net_name networkConfig) \<le> 45"
    and "getBlockNumber w = Inr height"
  shows "monitorAndTransfer w penv networkConfig t =
           Monitoring
             \<lparr>netName = net_name networkConfig, senderAddress = toLowerCase walletAddress,
              recipient = RECIPIENT_ADDRESS penv\<rparr>
             (startMonitoring (t + latency w) height (customTokenAddresses (CUSTOM_TOKENS penv)))"
    and "processedTxs
           (startMonitoring (t + latency w) height (customTokenAddresses (CUSTOM_TOKENS penv))) = {}"
    and "ticks
           (startMonitoring (t + latency w) height (customTokenAddresses (CUSTOM_TOKENS penv))) = []"
    and "lastCheckedBlock
           (startMonitoring (t + latency w) height (customTokenAddresses (CUSTOM_TOKENS penv))) =
         height"
  using assms
  by (simp_all add: monitorAndTransfer_def startUp_def startMonitoring_fresh)

text \<open>
  A key that is no hexadecimal string stops the monitor. An endpoint that is down at
  the start makes it start again 30 s later, and when the endpoint then answers with
  block 120 the monitor runs with an empty set and the checkpoint 120.
\<close>

lemma startup_examples:
  "monitorAndTransfer (worldWith (Inl badKey) (Inr 90)) demoProcess ethereum 0 =
     Stopped [Say_invalid_private_key ''Ethereum'', Say_ensure_private_key ''Ethereum'']"
  "monitorAndTransfer (worldWith (Inr (senderAddress demoEnv)) (Inl rpcDown)) demoProcess
       ethereum 0 =
     Restarting [Say_fatal_error ''Ethereum'' rpcDown, Say_restarting ''Ethereum''] 30250 ethereum"
  "restart (worldWith (Inr (senderAddress demoEnv)) (Inr 120)) demoProcess
     (monitorAndTransfer (worldWith (Inr (senderAddress demoEnv)) (Inl rpcDown)) demoProcess
        ethereum 0) =
     Monitoring demoEnv
       \<lparr>lastCheckedBlock = 120, processedTxs = {}, ticks = [], pass = PassDone, clock = 30500,
        nextInterval = 45500, journal = []\<rparr>"
  by (simp_all add: monitorAndTransfer_def startUp_def catchBlock_def isInvalidPrivateKey_def
        worldWith_def badKey_def rpcDown_def ethereum_def demoProcess_def demoEnv_def
        startMonitoring_def customTokenAddresses_def customTokensEnv_def toLowerCase_def
        toLowerCaseChar_def codeUnit_def trim_def)

text \<open>A network name of 46 characters ends the start at the banner.\<close>

lemma long_name_range_error:
  "startUp (worldWith (Inr (senderAddress demoEnv)) (Inr 90)) demoProcess
     \<lparr>net_name = replicate 46 CHR ''x'', rpcUrl = ''https://rpc.example''\<rparr> 0 =
   Inl (Error None ''Invalid count value: -1'')"
  by (simp add: startUp_def worldWith_def decimal.simps)

text \<open>
  C7 fails on the code for one kind of malformed signing credential. The test of lines
  175-178 knows the credential by the words \<open>invalid BytesLike value\<close> in the message.
  A private key of hexadecimal digits that is not 64 digits long, here \<open>1234\<close>, makes
  \<open>new Wallet\<close> throw with the code \<open>INVALID_ARGUMENT\<close> and the message
  \<open>invalid private key\<close>, which the test lets pass: the error is reported as a fatal
  error and \<open>monitorAndTransfer\<close> is scheduled again after 30000 ms, where the same key
  fails the same way, and so on every 30 s, although line 182 asks for 64 hexadecimal
  characters. For every time \<open>t\<close> and whatever the endpoint answers:
\<close>

theorem short_key_restarts_forever:
  "new_Wallet (strictWorld height) (PRIVATE_KEY shortKeyProcess) = Inl shortKey \<and>
   isInvalidPrivateKey shortKey = False \<and>
   monitorAndTransfer (strictWorld height) shortKeyProcess ethereum t =
     Restarting [Say_fatal_error ''Ethereum'' shortKey, Say_restarting ''Ethereum'']
       (t + 30250) ethereum \<and>
   restart (strictWorld height') shortKeyProcess
     (monitorAndTransfer (strictWorld height) shortKeyProcess ethereum t) =
     Restarting [Say_fatal_error ''Ethereum'' shortKey, Say_restarting ''Ethereum'']
       (t + 60500) ethereum"
proof -
  have key: "strictWallet ''1234'' = Inl shortKey"
    by (simp add: strictWallet_def isHexDigit_def toLowerCase_def toLowerCaseChar_def
          codeUnit_def)
  have test: "isInvalidPrivateKey shortKey = False"
    by (simp add: isInvalidPrivateKey_def shortKey_def)
  have run: "monitorAndTransfer (strictWorld h) shortKeyProcess ethereum s =
      Restarting [Say_fatal_error ''Ethereum'' shortKey, Say_restarting ''Ethereum'']
        (s + 30250) ethereum" for h s
    using key test
    by (simp add: monitorAndTransfer_def startUp_def catchBlock_def strictWorld_def
          shortKeyProcess_def ethereum_def)
  show ?thesis
    using key test run[of height t] run[of height' "t + 30250"]
    by (simp add: strictWorld_def shortKeyProcess_def)
qed

section \<open>A callback whose query fails\<close>




section \<open>The checkpoint under overlapping callbacks\<close>

text \<open>
  C4 fails on the code. The timer starts a callback every 15 s whether or not the last
  one has ended, and a callback that handles a fresh log waits 60 s before it reaches
  line 155, where it assigns the block number it read at its start, whatever the
  checkpoint has become. In the run \<open>overlapping\<close>, with times that respect both timers,
  the checkpoint climbs to 105 and then falls to 100, and the next callback asks for
  blocks 101 to 106, of which 101 to 105 lay behind the checkpoint already. The journal
  is shown oldest first.
\<close>

theorem checkpoint_falls_back:
  "map_option (\<lambda>m. (lastCheckedBlock m, rev (filter isPolling (journal m))))
     (exec demoEnv overlapping (startMonitoring 0 90 [])) =
   Some (100,
     [Queried 0 91 100, Queried 1 91 102, Advanced 1 102, Queried 2 103 103, Advanced 2 103,
      Queried 3 104 104, Advanced 3 104, Queried 4 105 105, Advanced 4 105, Advanced 0 100,
      Queried 5 101 106])"
  by (simp add: overlapping_def run_defs)

text \<open>
  What does hold of the checkpoint. It is assigned only by a callback whose own loop
  has no entry left, after the handler of its last entry has returned, and it gets the
  block number that callback read. An entry the loop skipped may still be waiting for
  its sweep in an earlier callback: in the run above the checkpoint is 102 while the
  transfer of block 95 has not been swept.
\<close>

lemma checkpoint_written_after_loop:
  assumes "step env (t, ev) m = Some m'" and "lastCheckedBlock m' \<noteq> lastCheckedBlock m"
  shows "\<exists>i cur. lastCheckedBlock m' = cur \<and> tickAt m' i = Some Settled \<and>
           hd (journal m') = Advanced i cur \<and>
           ((ev = GetLogs i (Inr []) \<and> tickAt m i = Some (AwaitLogs cur)) \<or>
            (\<exists>l. ev = Resume i \<and> tickAt m i = Some (AwaitHandler cur l Returned [])))"
  using assms(1)
proof (cases rule: step_cases)
  case (Logs i cur logs)
  with assms(2) show ?thesis
    by (cases logs) (auto simp: handleIncomingTransfer_def Let_def tickAt_setTick
        dest: tickAt_length split: if_splits)
next
  case (Resume i cur l ls)
  with assms(2) show ?thesis
    by (cases ls) (auto simp: handleIncomingTransfer_def Let_def tickAt_setTick
        dest: tickAt_length split: if_splits)
qed (use assms(2) in auto)

text \<open>
  And in a run in which no callback starts before the earlier ones have ended, the
  checkpoint never falls: the fall needs two callbacks in flight.
\<close>

lemma serial_inv_forLoop:
  assumes "serial_inv m" and "tickAt m i = Some pc" and "currentBlockOf pc = Some cur"
  shows "serial_inv (forLoop i cur logs m) \<and> lastCheckedBlock m \<le> lastCheckedBlock (forLoop i cur logs m)"
proof -
  from assms have lt: "lastCheckedBlock m < cur"
    unfolding serial_inv_def by blast
  from assms(3) have ns: "pc \<noteq> Settled" by auto
  have others: "pc' = Settled \<and> currentBlockOf pc' \<noteq> Some c"
    if "tickAt m j = Some pc'" "j \<noteq> i" for j pc' c
  proof -
    from that assms(1,2) ns have "pc' = Settled"
      unfolding serial_inv_def by blast
    then show ?thesis by simp
  qed
  have i: "i < length (ticks m)" using assms(2) by (rule tickAt_length)
  show ?thesis
  proof (rule forLoop_cases)
    assume "logs = []"
    show "serial_inv (jot (Advanced i cur) (setTick i Settled (m\<lparr>lastCheckedBlock := cur\<rparr>))) \<and>
      lastCheckedBlock m \<le> lastCheckedBlock (jot (Advanced i cur) (setTick i Settled (m\<lparr>lastCheckedBlock := cur\<rparr>)))"
      using lt i others unfolding serial_inv_def
      by (auto simp: tickAt_setTick split: if_splits dest: others)
  next
    fix l ls
    assume "logs = l # ls" "transactionHash l \<in> processedTxs m"
    show "serial_inv (setTick i (AwaitHandler cur l Returned ls) (jot (Skipped i l) m)) \<and>
      lastCheckedBlock m \<le> lastCheckedBlock (setTick i (AwaitHandler cur l Returned ls) (jot (Skipped i l) m))"
      using lt i others unfolding serial_inv_def
      by (auto simp: tickAt_setTick split: if_splits dest: others)
  next
    fix l ls
    assume "logs = l # ls" "transactionHash l \<notin> processedTxs m"
    show "serial_inv (setTick i (AwaitHandler cur l (AwaitDetails (toLowerCase (address l))) ls)
          (jot (Marked i l) (m\<lparr>processedTxs := insert (transactionHash l) (processedTxs m)\<rparr>))) \<and>
      lastCheckedBlock m \<le> lastCheckedBlock (setTick i (AwaitHandler cur l (AwaitDetails (toLowerCase (address l))) ls)
          (jot (Marked i l) (m\<lparr>processedTxs := insert (transactionHash l) (processedTxs m)\<rparr>)))"
      using lt i others unfolding serial_inv_def
      by (auto simp: tickAt_setTick split: if_splits dest: others)
  qed
qed


lemma list_all_Settled: "list_all (\<lambda>pc. pc = Settled) (ticks m) \<Longrightarrow> tickAt m i = Some pc \<Longrightarrow> pc = Settled"
  by (auto simp: tickAt_def list_all_length split: if_splits)

lemma serial_inv_step:
  assumes "step env (t, ev) m = Some m'" and inv: "serial_inv m"
    and idle: "ev = Interval \<Longrightarrow> list_all (\<lambda>pc. pc = Settled) (ticks m)"
  shows "serial_inv m' \<and> lastCheckedBlock m \<le> lastCheckedBlock m'"
  using assms(1)
proof (cases rule: step_cases)
  case Interval
  with inv idle[OF Interval(1)] show ?thesis
    unfolding serial_inv_def
    by (auto dest: list_all_Settled)
next
  case (Logs i cur logs)
  have "serial_inv (jot (Batch i logs) (m\<lparr>clock := t\<rparr>))"
    using inv unfolding serial_inv_def by simp
  from serial_inv_forLoop[OF this, of i "AwaitLogs cur" cur logs] Logs show ?thesis
    by simp
next
  case (Resume i cur l ls)
  have "serial_inv (m\<lparr>clock := t\<rparr>)"
    using inv unfolding serial_inv_def by simp
  from serial_inv_forLoop[OF this, of i "AwaitHandler cur l Returned ls" cur ls] Resume show ?thesis
    by simp
next
  case (Quiet i pc)
  with inv show ?thesis
    unfolding serial_inv_def by (auto simp: tickAt_setTick split: if_splits)
next
  case (Query i cur)
  from Query(3) have i: "i < length (ticks m)" by (rule tickAt_length)
  have others: "pc' = Settled \<and> currentBlockOf pc' \<noteq> Some c"
    if "tickAt m j = Some pc'" "j \<noteq> i" for j pc' c
  proof -
    from that inv Query(3) have "pc' = Settled"
      unfolding serial_inv_def by blast
    then show ?thesis by simp
  qed
  from Query i others inv show ?thesis
    unfolding serial_inv_def by (auto simp: tickAt_setTick split: if_splits dest: others)
next
  case (Details i cur l a ls ch d)
  from Details(3) have i: "i < length (ticks m)" by (rule tickAt_length)
  have others: "pc' = Settled \<and> currentBlockOf pc' \<noteq> Some c"
    if "tickAt m j = Some pc'" "j \<noteq> i" for j pc' c
  proof -
    from that inv Details(3) have "pc' = Settled"
      unfolding serial_inv_def by blast
    then show ?thesis by simp
  qed
  have "lastCheckedBlock m < cur"
    using inv Details(3) unfolding serial_inv_def by fastforce
  with Details i others show ?thesis
    unfolding serial_inv_def by (auto simp: tickAt_setTick split: if_splits dest: others)
next
  case (Timeout i cur l a d due ls)
  from Timeout(4) have i: "i < length (ticks m)" by (rule tickAt_length)
  have others: "pc' = Settled \<and> currentBlockOf pc' \<noteq> Some c"
    if "tickAt m j = Some pc'" "j \<noteq> i" for j pc' c
  proof -
    from that inv Timeout(4) have "pc' = Settled"
      unfolding serial_inv_def by blast
    then show ?thesis by simp
  qed
  have "lastCheckedBlock m < cur"
    using inv Timeout(4) unfolding serial_inv_def by fastforce
  with Timeout i others show ?thesis
    unfolding serial_inv_def by (auto simp: tickAt_setTick split: if_splits dest: others)
next
  case (Transfer i cur l a d ls ch ok effs)
  from Transfer(3) have i: "i < length (ticks m)" by (rule tickAt_length)
  have others: "pc' = Settled \<and> currentBlockOf pc' \<noteq> Some c"
    if "tickAt m j = Some pc'" "j \<noteq> i" for j pc' c
  proof -
    from that inv Transfer(3) have "pc' = Settled"
      unfolding serial_inv_def by blast
    then show ?thesis by simp
  qed
  have "lastCheckedBlock m < cur"
    using inv Transfer(3) unfolding serial_inv_def by fastforce
  with Transfer i others show ?thesis
    unfolding serial_inv_def by (auto simp: tickAt_setTick split: if_splits dest: others)
next
  case (PassDetails a rest ch d)
  with inv show ?thesis unfolding serial_inv_def by simp
next
  case (PassTransfer a d rest ch ok effs)
  with inv show ?thesis unfolding serial_inv_def by simp
qed

lemma checkpoint_monotone_without_overlap:
  assumes "serial env sched m" and "serial_inv m" and "exec env sched m = Some m'"
  shows "lastCheckedBlock m \<le> lastCheckedBlock m' \<and> serial_inv m'"
  using assms
proof (induction sched arbitrary: m)
  case Nil
  then show ?case by simp
next
  case (Cons te sched)
  obtain t ev where te: "te = (t, ev)" by (cases te)
  from Cons.prems(3) obtain m1 where s: "step env (t, ev) m = Some m1"
    and r: "exec env sched m1 = Some m'"
    by (auto simp: te split: option.splits)
  from Cons.prems(1) s have idle: "ev = Interval \<Longrightarrow> list_all (\<lambda>pc. pc = Settled) (ticks m)"
    and ser: "serial env sched m1"
    by (auto simp: te)
  from serial_inv_step[OF s Cons.prems(2) idle]
  have "serial_inv m1" "lastCheckedBlock m \<le> lastCheckedBlock m1" by auto
  with Cons.IH[OF ser _ r] show ?case by auto
qed


section \<open>The custom-token loop and the polling\<close>





lemma setTick_length_ticks [simp]: "length (ticks (setTick i pc m)) = length (ticks m)"
  by simp



lemma forLoop_clock [simp]: "clock (forLoop i cur logs m) = clock m"
  by (rule forLoop_cases) auto

lemma forLoop_nextInterval [simp]: "nextInterval (forLoop i cur logs m) = nextInterval m"
  by (rule forLoop_cases) auto

lemma forLoop_pass [simp]: "pass (forLoop i cur logs m) = pass m"
  by (rule forLoop_cases) auto














end
